theory Spec2Isabelle
  imports Complex_Main
begin

section \<open>The JavaScript runtime the encoder relies on\<close>

subsection \<open>Strings\<close>

text \<open>
  A JavaScript string is a sequence of code units and \<open>length\<close> counts them; a
  \<^typ>\<open>string\<close> is a list of characters and \<^const>\<open>length\<close> counts them.
  \<open>padStart\<close> and \<open>padEnd\<close> are only ever called with a one-character filler;
  neither shortens a string that is already long enough.
\<close>

definition padStart :: "nat \<Rightarrow> char \<Rightarrow> string \<Rightarrow> string" where
  "padStart n c s = replicate (n - length s) c @ s"

definition padEnd :: "nat \<Rightarrow> char \<Rightarrow> string \<Rightarrow> string" where
  "padEnd n c s = s @ replicate (n - length s) c"

text \<open>\<open>s.slice(0, n)\<close> keeps the first \<open>n\<close> characters, \<open>s.slice(-n)\<close> the last \<open>n\<close>.\<close>

definition sliceTo :: "nat \<Rightarrow> string \<Rightarrow> string" where
  "sliceTo n s = take n s"

definition sliceLast :: "nat \<Rightarrow> string \<Rightarrow> string" where
  "sliceLast n s = drop (length s - n) s"

text \<open>\<open>lines.join(sep)\<close>.\<close>

fun join :: "string \<Rightarrow> string list \<Rightarrow> string" where
  "join sep [] = []"
| "join sep [l] = l"
| "join sep (l # m # ls) = l @ sep @ join sep (m # ls)"

text \<open>
  The regular expressions of the validator are all of the shape \<open>/^\d{lo,hi}$/\<close>:
  the whole string consists of between \<open>lo\<close> and \<open>hi\<close> ASCII digits.
\<close>

definition isDigit :: "char \<Rightarrow> bool" where
  "isDigit c = (c \<in> set ''0123456789'')"

definition digitsBetween :: "nat \<Rightarrow> nat \<Rightarrow> string \<Rightarrow> bool" where
  "digitsBetween lo hi s = (lo \<le> length s \<and> length s \<le> hi \<and> list_all isDigit s)"

subsection \<open>Counters\<close>

text \<open>
  \<open>recordCount\<close>, \<open>segmentIndex\<close> and the two record totals are counters that start
  at 0 or 1 and only ever grow by one; they are natural numbers, and \<open>toString()\<close> of
  such a number is its decimal numeral.
\<close>

definition digitChar :: "nat \<Rightarrow> char" where
  "digitChar d = ''0123456789'' ! d"

fun natToString :: "nat \<Rightarrow> string" where
  "natToString n =
     (if n < 10 then [digitChar n] else natToString (n div 10) @ [digitChar (n mod 10)])"

declare natToString.simps [simp del]

subsection \<open>Numbers\<close>

text \<open>
  \<open>amount\<close> and \<open>cpaCode\<close> are IEEE 754 binary64 values.  A finite one is
  modelled by the rational it denotes; the arithmetic rounds every exact result to the
  nearest binary64 value, ties to even, with gradual underflow and overflow to infinity.
  The sign of zero is not modelled: this program never divides, and compares, adds,
  multiplies, rounds and prints zero the same way whatever its sign.
\<close>

datatype number = Fin rat | PosInfinity | NegInfinity | NaN

function ilog2 :: "int \<Rightarrow> int" where
  "ilog2 n = (if n < 2 then 0 else 1 + ilog2 (n div 2))"
  by pat_completeness auto
termination
  by (relation "measure nat") auto

declare ilog2.simps [simp del]

definition pow2 :: "int \<Rightarrow> rat" where
  "pow2 e = (if 0 \<le> e then 2 ^ nat e else 1 / 2 ^ nat (- e))"

text \<open>The exponent \<open>e\<close> with \<open>2^e \<le> x < 2^(e+1)\<close>, for a positive \<open>x\<close>.\<close>

definition floorLog2 :: "rat \<Rightarrow> int" where
  "floorLog2 x =
     (let (a, b) = quotient_of x in
      if b \<le> a then ilog2 (a div b)
      else (let k = ilog2 (b div a)
            in if of_int a * pow2 k = (of_int b :: rat) then - k else - k - 1))"

definition roundHalfEven :: "rat \<Rightarrow> int" where
  "roundHalfEven x =
     (let f = \<lfloor>x\<rfloor>; r = x - of_int f
      in if r < 1 / 2 then f else if 1 / 2 < r then f + 1 else if even f then f else f + 1)"

text \<open>
  Rounding to binary64.  The significand \<open>m\<close> is the exact value in units of the last
  place, rounded; it never exceeds \<open>2^53 = 9007199254740992\<close> in magnitude, and
  the result overflows exactly when it reaches \<open>2^1024\<close>.
\<close>

definition roundToDouble :: "rat \<Rightarrow> number" where
  "roundToDouble x =
     (if x = 0 then Fin 0
      else let e = max (floorLog2 \<bar>x\<bar>) (- 1022);
               m = roundHalfEven (x / pow2 (e - 52))
           in if 1023 < e \<or> (e = 1023 \<and> \<bar>m\<bar> = 9007199254740992)
              then (if 0 < x then PosInfinity else NegInfinity)
              else Fin (of_int m * pow2 (e - 52)))"

text \<open>\<open>a + b\<close>.\<close>

fun numAdd :: "number \<Rightarrow> number \<Rightarrow> number" where
  "numAdd (Fin a) (Fin b) = roundToDouble (a + b)"
| "numAdd NaN _ = NaN"
| "numAdd _ NaN = NaN"
| "numAdd PosInfinity NegInfinity = NaN"
| "numAdd NegInfinity PosInfinity = NaN"
| "numAdd PosInfinity _ = PosInfinity"
| "numAdd _ PosInfinity = PosInfinity"
| "numAdd NegInfinity _ = NegInfinity"
| "numAdd _ NegInfinity = NegInfinity"

text \<open>\<open>a * 100\<close>: the only product the encoder forms.\<close>

fun times100 :: "number \<Rightarrow> number" where
  "times100 (Fin a) = roundToDouble (a * 100)"
| "times100 x = x"

text \<open>\<open>a <= 0\<close> and \<open>a >= 100_000_000\<close>; a comparison with \<open>NaN\<close> is false.\<close>

fun leZero :: "number \<Rightarrow> bool" where
  "leZero (Fin a) = (a \<le> 0)"
| "leZero NegInfinity = True"
| "leZero _ = False"

fun geHundredMillion :: "number \<Rightarrow> bool" where
  "geHundredMillion (Fin a) = (100000000 \<le> a)"
| "geHundredMillion PosInfinity = True"
| "geHundredMillion _ = False"

text \<open>
  \<open>Math.round(x)\<close>: the integer nearest to \<open>x\<close>, the larger one on a tie.  The result
  is exact: a binary64 value of magnitude \<open>2^52\<close> or more is an integer already.
\<close>

fun mathRound :: "number \<Rightarrow> number" where
  "mathRound (Fin a) = Fin (of_int \<lfloor>a + 1 / 2\<rfloor>)"
| "mathRound x = x"

text \<open>
  \<open>x.toString()\<close>.  The language prints the shortest digit string that reads back as
  the same binary64 value.  For an integer of magnitude at most \<open>2^53\<close> that string is
  its decimal numeral: every integer of that size is a binary64 value of its own, so no
  shorter string reads back as it.  Every other finite value (a fraction, a larger
  integer, whose last digits are no longer significant, exponent notation) is printed
  by the parameter \<open>other\<close>.
\<close>

fun numberToString :: "(rat \<Rightarrow> string) \<Rightarrow> number \<Rightarrow> string" where
  "numberToString other (Fin a) =
     (if of_int \<lfloor>a\<rfloor> = a \<and> \<bar>a\<bar> \<le> 2 ^ 53
      then (if a < 0 then ''-'' else '''') @ natToString (nat \<bar>\<lfloor>a\<rfloor>\<bar>)
      else other a)"
| "numberToString other PosInfinity = ''Infinity''"
| "numberToString other NegInfinity = ''-Infinity''"
| "numberToString other NaN = ''NaN''"

text \<open>A decimal literal of the source text denotes the nearest binary64 value.\<close>

definition literal :: "rat \<Rightarrow> number" where
  "literal x = roundToDouble x"

section \<open>Data model (\<open>types.ts\<close>)\<close>

text \<open>
  The validator inspects run-time values, so \<open>recordType\<close> and
  \<open>destinationCurrency\<close> are strings here, although the declared types admit only
  \<open>'C' | 'D'\<close> and \<open>'CAD' | 'USD'\<close>.  An optional field is an \<^typ>\<open>'a option\<close>,
  \<^const>\<open>None\<close> for \<open>undefined\<close>.  A \<open>Date\<close> is its time value in milliseconds.
\<close>

type_synonym Date = int

record EFTConfiguration =
  originatorId :: string
  originatorShortName :: "string option"
  originatorLongName :: string
  fileCreationNumber :: string
  fileCreationDate :: "Date option"
  destinationDataCentre :: "string option"
  destinationCurrency :: "string option"

record EFTTransactionSegment =
  cpaCode :: number
  amount :: number
  paymentDate :: "Date option"
  bankInstitutionNumber :: string
  bankTransitNumber :: string
  itemTraceNumber :: "string option"
  bankAccountNumber :: string
  payeeName :: string
  crossReferenceNumber :: "string option"

record EFTTransaction =
  recordType :: string
  segments :: "EFTTransactionSegment list"

text \<open>
  Modelled from the spec: the generator class of \<open>index.js\<close>, which is not among the
  sources.  It "holds the configuration and the growing transaction list" and "exposes
  read accessors"; the accessors hand out the objects themselves.
\<close>

record EFTGenerator =
  configuration :: EFTConfiguration
  transactions :: "EFTTransaction list"

definition getConfiguration :: "EFTGenerator \<Rightarrow> EFTConfiguration" where
  "getConfiguration eftGenerator = configuration eftGenerator"

definition getTransactions :: "EFTGenerator \<Rightarrow> EFTTransaction list" where
  "getTransactions eftGenerator = transactions eftGenerator"

text \<open>
  What the module imports or reads from its environment, as parameters:
  \<^item> \<open>isValidCPACode\<close>, the code table of \<open>index.js\<close>;
  \<^item> \<open>toShortModernJulianDate\<close> of the package \<open>@cityssm/modern-julian-date\<close>;
  \<^item> the clock: \<open>newDate k\<close> is what the \<open>k\<close>-th evaluation of \<open>new Date()\<close>
    in a run yields (counting from 0);
  \<^item> \<open>roundTripToString\<close>, the language's printing of the finite numbers that are not
    integers of magnitude at most \<open>2^53\<close>.
\<close>

record runtime =
  isValidCPACode :: "number \<Rightarrow> bool"
  toShortModernJulianDate :: "Date \<Rightarrow> string"
  newDate :: "nat \<Rightarrow> Date"
  roundTripToString :: "rat \<Rightarrow> string"

definition toString :: "runtime \<Rightarrow> number \<Rightarrow> string" where
  "toString rt x = numberToString (roundTripToString rt) x"

definition toJulianDate :: "runtime \<Rightarrow> Date \<Rightarrow> string" where
  "toJulianDate rt date = ''0'' @ toShortModernJulianDate rt date"

section \<open>Validation\<close>

text \<open>Every \<open>throw\<close> of the validator is one constructor.\<close>

datatype error =
    OriginatorIdTooLong
  | FileCreationNumberInvalid
  | DestinationDataCentreInvalid
  | UnsupportedDestinationCurrency
  | TransactionCountExceeded
  | UnsupportedRecordType
  | AmountNotPositive
  | AmountTooLarge
  | BankInstitutionNumberInvalid
  | BankTransitNumberInvalid
  | BankAccountNumberInvalid

text \<open>
  \<open>validateConfig\<close> may assign \<open>originatorShortName\<close> before it throws on the
  currency, so the configuration it leaves behind is returned in both outcomes.
\<close>

definition validateConfig :: "EFTConfiguration \<Rightarrow> EFTConfiguration \<times> (error + nat)" where
  "validateConfig eftConfig =
     (if length (originatorId eftConfig) > 10 then (eftConfig, Inl OriginatorIdTooLong)
      else if \<not> digitsBetween 1 4 (fileCreationNumber eftConfig)
      then (eftConfig, Inl FileCreationNumberInvalid)
      else if \<not> digitsBetween 0 5
                  (case destinationDataCentre eftConfig of None \<Rightarrow> '''' | Some c \<Rightarrow> c)
      then (eftConfig, Inl DestinationDataCentreInvalid)
      else
        let (warningCount, eftConfig, shortName) =
              (case originatorShortName eftConfig of
                 None \<Rightarrow>
                   (1, eftConfig\<lparr>originatorShortName := Some (originatorLongName eftConfig)\<rparr>,
                    originatorLongName eftConfig)
               | Some n \<Rightarrow> (0, eftConfig, n));
            warningCount = (if length shortName > 15 then warningCount + 1 else warningCount);
            warningCount =
              (if length (originatorLongName eftConfig) > 30 then warningCount + 1
               else warningCount)
        in if (case destinationCurrency eftConfig of None \<Rightarrow> '''' | Some c \<Rightarrow> c)
                \<notin> set ['''', ''CAD'', ''USD'']
           then (eftConfig, Inl UnsupportedDestinationCurrency)
           else (eftConfig, Inr warningCount))"

text \<open>
  The body of the loop over the segments of a transaction; the state is the warning
  count and the set of cross-reference numbers seen so far.
\<close>

definition validateSegment ::
  "runtime \<Rightarrow> EFTTransactionSegment \<Rightarrow> nat \<times> string set \<Rightarrow> error + nat \<times> string set" where
  "validateSegment rt segment st =
     (let (warningCount, crossReferenceNumbers) = st;
          warningCount =
            (if \<not> isValidCPACode rt (cpaCode segment) then warningCount + 1 else warningCount)
      in if leZero (amount segment) then Inl AmountNotPositive
         else if geHundredMillion (amount segment) then Inl AmountTooLarge
         else if \<not> digitsBetween 1 3 (bankInstitutionNumber segment)
         then Inl BankInstitutionNumberInvalid
         else if \<not> digitsBetween 1 5 (bankTransitNumber segment)
         then Inl BankTransitNumberInvalid
         else if \<not> digitsBetween 1 12 (bankAccountNumber segment)
         then Inl BankAccountNumberInvalid
         else
           let warningCount =
                 (if length (payeeName segment) > 30 then warningCount + 1 else warningCount)
           in case crossReferenceNumber segment of
                None \<Rightarrow> Inr (warningCount, crossReferenceNumbers)
              | Some x \<Rightarrow>
                  Inr (if x \<in> crossReferenceNumbers then warningCount + 1 else warningCount,
                       insert x crossReferenceNumbers))"

fun validateSegments ::
  "runtime \<Rightarrow> EFTTransactionSegment list \<Rightarrow> nat \<times> string set \<Rightarrow> error + nat \<times> string set" where
  "validateSegments rt [] st = Inr st"
| "validateSegments rt (segment # rest) st =
     (case validateSegment rt segment st of
        Inl e \<Rightarrow> Inl e
      | Inr st' \<Rightarrow> validateSegments rt rest st')"

text \<open>The body of the loop over the transactions.\<close>

definition validateTransaction ::
  "runtime \<Rightarrow> EFTTransaction \<Rightarrow> nat \<times> string set \<Rightarrow> error + nat \<times> string set" where
  "validateTransaction rt transaction st =
     (let (warningCount, crossReferenceNumbers) = st;
          warningCount =
            (if length (segments transaction) = 0 then warningCount + 1 else warningCount);
          warningCount =
            (if length (segments transaction) > 6 then warningCount + 1 else warningCount)
      in if recordType transaction \<notin> set [''C'', ''D''] then Inl UnsupportedRecordType
         else validateSegments rt (segments transaction) (warningCount, crossReferenceNumbers))"

fun validateTransactionLoop ::
  "runtime \<Rightarrow> EFTTransaction list \<Rightarrow> nat \<times> string set \<Rightarrow> error + nat \<times> string set" where
  "validateTransactionLoop rt [] st = Inr st"
| "validateTransactionLoop rt (transaction # rest) st =
     (case validateTransaction rt transaction st of
        Inl e \<Rightarrow> Inl e
      | Inr st' \<Rightarrow> validateTransactionLoop rt rest st')"

definition validateTransactions :: "runtime \<Rightarrow> EFTTransaction list \<Rightarrow> error + nat" where
  "validateTransactions rt eftTransactions =
     (case (if length eftTransactions = 0 then Inr 1
            else if length eftTransactions > 999999999 then Inl TransactionCountExceeded
            else Inr 0) of
        Inl e \<Rightarrow> Inl e
      | Inr warningCount \<Rightarrow>
          (case validateTransactionLoop rt eftTransactions (warningCount, {}) of
             Inl e \<Rightarrow> Inl e
           | Inr (warningCount, crossReferenceNumbers) \<Rightarrow> Inr warningCount))"

text \<open>
  \<open>validateCPA005\<close> validates the configuration first; the generator it returns holds
  the configuration as \<open>validateConfig\<close> left it.
\<close>

definition validateCPA005 :: "runtime \<Rightarrow> EFTGenerator \<Rightarrow> EFTGenerator \<times> (error + nat)" where
  "validateCPA005 rt eftGenerator =
     (case validateConfig (getConfiguration eftGenerator) of
        (eftConfig, Inl e) \<Rightarrow> (eftGenerator\<lparr>configuration := eftConfig\<rparr>, Inl e)
      | (eftConfig, Inr configWarnings) \<Rightarrow>
          (eftGenerator\<lparr>configuration := eftConfig\<rparr>,
           case validateTransactions rt (getTransactions eftGenerator) of
             Inl e \<Rightarrow> Inl e
           | Inr transactionWarnings \<Rightarrow> Inr (configWarnings + transactionWarnings)))"

section \<open>Encoding\<close>

text \<open>
  \<open>formatHeader\<close>.  When the header needs today's date it is the first
  \<open>new Date()\<close> of the run.
\<close>

definition formatHeader :: "runtime \<Rightarrow> EFTConfiguration \<Rightarrow> string" where
  "formatHeader rt eftConfig =
     (let fileCreationJulianDate =
            toJulianDate rt
              (case fileCreationDate eftConfig of None \<Rightarrow> newDate rt 0 | Some d \<Rightarrow> d);
          dataCentre =
            (case destinationDataCentre eftConfig of
               None \<Rightarrow> padEnd 5 CHR '' '' ''''
             | Some c \<Rightarrow> padStart 5 CHR ''0'' c);
          destinationCurrency =
            (case destinationCurrency eftConfig of
               None \<Rightarrow> padEnd 3 CHR '' '' ''''
             | Some c \<Rightarrow> c)
      in ''A'' @
         padStart 9 CHR ''0'' ''1'' @
         padEnd 10 CHR '' '' (originatorId eftConfig) @
         sliceLast 4 (padStart 4 CHR ''0'' (fileCreationNumber eftConfig)) @
         fileCreationJulianDate @
         dataCentre @
         padEnd 20 CHR '' '' '''' @
         destinationCurrency @
         padEnd 1406 CHR '' '' '''')"

text \<open>
  The text one segment adds to \<open>record\<close> (the right-hand side of \<open>record += ...\<close>),
  given the current \<open>recordCount\<close>, the \<open>segmentIndex\<close> and the date that
  \<open>segment.paymentDate ?? new Date()\<close> yielded.
\<close>

definition segmentText ::
  "runtime \<Rightarrow> EFTConfiguration \<Rightarrow> nat \<Rightarrow> nat \<Rightarrow> Date \<Rightarrow> EFTTransactionSegment \<Rightarrow> string" where
  "segmentText rt eftConfig recordCount segmentIndex date segment =
     (let paymentJulianDate = toJulianDate rt date;
          crossReferenceNumber =
            (case crossReferenceNumber segment of
               None \<Rightarrow>
                 ''f'' @ fileCreationNumber eftConfig @ ''r'' @ natToString recordCount @
                 ''s'' @ natToString (segmentIndex + 1)
             | Some x \<Rightarrow> x);
          originatorShortName =
            (case originatorShortName eftConfig of
               None \<Rightarrow> originatorLongName eftConfig
             | Some n \<Rightarrow> n)
      in toString rt (cpaCode segment) @
         padStart 10 CHR ''0'' (toString rt (mathRound (times100 (amount segment)))) @
         paymentJulianDate @
         padStart 4 CHR ''0'' (bankInstitutionNumber segment) @
         padStart 5 CHR ''0'' (bankTransitNumber segment) @
         padEnd 12 CHR '' '' (bankAccountNumber segment) @
         (case itemTraceNumber segment of
            None \<Rightarrow> padStart 22 CHR ''0'' ''''
          | Some t \<Rightarrow> t @ padStart 4 CHR ''0'' (natToString (segmentIndex + 1))) @
         padStart 3 CHR ''0'' '''' @
         sliceTo 15 (padEnd 15 CHR '' '' originatorShortName) @
         sliceTo 30 (padEnd 30 CHR '' '' (payeeName segment)) @
         sliceTo 30 (padEnd 30 CHR '' '' (originatorLongName eftConfig)) @
         padEnd 10 CHR '' '' (sliceTo 5 (originatorId eftConfig)) @
         sliceTo 19 (padEnd 19 CHR '' '' crossReferenceNumber) @
         padEnd 9 CHR '' '' '''' @
         padEnd 12 CHR '' '' '''' @
         padEnd 15 CHR '' '' '''' @
         padEnd 22 CHR '' '' '''' @
         padEnd 2 CHR '' '' '''' @
         padStart 11 CHR ''0'' '''')"

text \<open>
  The local variables of \<open>formatToCPA005\<close>, and the number of \<open>new Date()\<close>
  evaluated so far.  The variable \<open>record\<close> is \<open>recordText\<close> here.
\<close>

record encoder =
  outputLines :: "string list"
  recordCount :: nat
  recordText :: string
  totalValueDebits :: number
  totalNumberDebits :: nat
  totalValueCredits :: number
  totalNumberCredits :: nat
  datesTaken :: nat

text \<open>The body of the loop over \<open>segmentIndex\<close>.\<close>

definition segmentStep ::
  "runtime \<Rightarrow> EFTConfiguration \<Rightarrow> EFTTransaction \<Rightarrow> nat \<Rightarrow> encoder \<Rightarrow> encoder" where
  "segmentStep rt eftConfig transaction segmentIndex st =
     (let st =
            (if segmentIndex mod 6 = 0
             then
               let st = (if segmentIndex > 0
                         then st\<lparr>outputLines := outputLines st @ [recordText st]\<rparr>
                         else st);
                   st = st\<lparr>recordCount := recordCount st + 1\<rparr>;
                   st = (if recordType transaction = ''C''
                         then st\<lparr>totalNumberCredits := totalNumberCredits st + 1\<rparr>
                         else st\<lparr>totalNumberDebits := totalNumberDebits st + 1\<rparr>)
               in st\<lparr>recordText :=
                       recordType transaction @
                       padStart 9 CHR ''0'' (natToString (recordCount st)) @
                       padEnd 10 CHR '' '' (originatorId eftConfig) @
                       padStart 4 CHR ''0'' (fileCreationNumber eftConfig)\<rparr>
             else st);
          segment = segments transaction ! segmentIndex;
          (date, st) =
            (case paymentDate segment of
               None \<Rightarrow> (newDate rt (datesTaken st), st\<lparr>datesTaken := datesTaken st + 1\<rparr>)
             | Some d \<Rightarrow> (d, st));
          st = st\<lparr>recordText :=
                    recordText st @
                    segmentText rt eftConfig (recordCount st) segmentIndex date segment\<rparr>
      in if recordType transaction = ''C''
         then st\<lparr>totalValueCredits := numAdd (totalValueCredits st) (amount segment)\<rparr>
         else st\<lparr>totalValueDebits := numAdd (totalValueDebits st) (amount segment)\<rparr>)"

text \<open>
  \<open>for (let segmentIndex = 0; segmentIndex < transaction.segments.length; segmentIndex += 1)\<close>,
  from any value of \<open>segmentIndex\<close>; the index read in the body is always in range.
\<close>

function segmentLoop ::
  "runtime \<Rightarrow> EFTConfiguration \<Rightarrow> EFTTransaction \<Rightarrow> nat \<Rightarrow> encoder \<Rightarrow> encoder" where
  "segmentLoop rt eftConfig transaction segmentIndex st =
     (if segmentIndex < length (segments transaction)
      then segmentLoop rt eftConfig transaction (segmentIndex + 1)
             (segmentStep rt eftConfig transaction segmentIndex st)
      else st)"
  by pat_completeness auto
termination
  by (relation "measure (\<lambda>(rt, eftConfig, transaction, segmentIndex, st).
                  length (segments transaction) - segmentIndex)") auto

declare segmentLoop.simps [simp del]

text \<open>The body of the loop over the transactions.\<close>

definition transactionStep ::
  "runtime \<Rightarrow> EFTConfiguration \<Rightarrow> encoder \<Rightarrow> EFTTransaction \<Rightarrow> encoder" where
  "transactionStep rt eftConfig st transaction =
     (let st = segmentLoop rt eftConfig transaction 0 (st\<lparr>recordText := ''''\<rparr>)
      in if recordText st \<noteq> ''''
         then st\<lparr>outputLines := outputLines st @ [padEnd 1464 CHR '' '' (recordText st)]\<rparr>
         else st)"

definition formatTrailer :: "runtime \<Rightarrow> EFTConfiguration \<Rightarrow> encoder \<Rightarrow> string" where
  "formatTrailer rt eftConfig st =
     ''Z'' @
     padStart 9 CHR ''0'' (natToString (recordCount st + 1)) @
     padEnd 10 CHR '' '' (originatorId eftConfig) @
     sliceLast 4 (padStart 4 CHR ''0'' (fileCreationNumber eftConfig)) @
     padStart 14 CHR ''0'' (toString rt (mathRound (times100 (totalValueDebits st)))) @
     padStart 8 CHR ''0'' (natToString (totalNumberDebits st)) @
     padStart 14 CHR ''0'' (toString rt (mathRound (times100 (totalValueCredits st)))) @
     padStart 8 CHR ''0'' (natToString (totalNumberCredits st)) @
     padEnd 1396 CHR '' '' ''''"

text \<open>The state after the header has been pushed and the local variables initialised.\<close>

definition initialEncoder :: "runtime \<Rightarrow> EFTConfiguration \<Rightarrow> encoder" where
  "initialEncoder rt eftConfig =
     \<lparr>outputLines = [formatHeader rt eftConfig],
      recordCount = 1,
      recordText = '''',
      totalValueDebits = Fin 0,
      totalNumberDebits = 0,
      totalValueCredits = Fin 0,
      totalNumberCredits = 0,
      datesTaken = (case fileCreationDate eftConfig of None \<Rightarrow> 1 | Some d \<Rightarrow> 0)\<rparr>"

definition encodeTransactions ::
  "runtime \<Rightarrow> EFTConfiguration \<Rightarrow> EFTTransaction list \<Rightarrow> encoder" where
  "encodeTransactions rt eftConfig eftTransactions =
     foldl (transactionStep rt eftConfig) (initialEncoder rt eftConfig) eftTransactions"

text \<open>\<open>outputLines\<close> when the trailer has been pushed: the part of \<open>formatToCPA005\<close>
  after validation and before \<open>join\<close>.\<close>

definition encodeLines :: "runtime \<Rightarrow> EFTConfiguration \<Rightarrow> EFTTransaction list \<Rightarrow> string list" where
  "encodeLines rt eftConfig eftTransactions =
     (let st = encodeTransactions rt eftConfig eftTransactions
      in outputLines st @ [formatTrailer rt eftConfig st])"

text \<open>
  \<open>formatToCPA005\<close> with the lines not yet joined, and \<open>formatToCPA005\<close> itself.
  Both also return the generator, whose configuration validation may have changed.
\<close>

definition formatLines :: "runtime \<Rightarrow> EFTGenerator \<Rightarrow> EFTGenerator \<times> (error + string list)" where
  "formatLines rt eftGenerator =
     (case validateCPA005 rt eftGenerator of
        (eftGenerator, Inl e) \<Rightarrow> (eftGenerator, Inl e)
      | (eftGenerator, Inr warningCount) \<Rightarrow>
          (eftGenerator,
           Inr (encodeLines rt (getConfiguration eftGenerator) (getTransactions eftGenerator))))"

definition formatToCPA005 :: "runtime \<Rightarrow> EFTGenerator \<Rightarrow> EFTGenerator \<times> (error + string)" where
  "formatToCPA005 rt eftGenerator =
     (case formatLines rt eftGenerator of
        (eftGenerator, Inl e) \<Rightarrow> (eftGenerator, Inl e)
      | (eftGenerator, Inr lines) \<Rightarrow> (eftGenerator, Inr (join [CHR 0x0D, CHR 0x0A] lines)))"

section \<open>Notions used in the statements\<close>

text \<open>\<open>Math.round(x * 100).toString()\<close>: an amount in cents, as text.\<close>

definition centsText :: "runtime \<Rightarrow> number \<Rightarrow> string" where
  "centsText rt x = toString rt (mathRound (times100 x))"

text \<open>The text a physical record starts with, for a record-type letter and a record number.\<close>

definition recordPrefix :: "EFTConfiguration \<Rightarrow> string \<Rightarrow> nat \<Rightarrow> string" where
  "recordPrefix eftConfig letter n =
     letter @ padStart 9 CHR ''0'' (natToString n) @
     padEnd 10 CHR '' '' (originatorId eftConfig) @
     padStart 4 CHR ''0'' (fileCreationNumber eftConfig)"

text \<open>The date \<open>segment.paymentDate ?? new Date()\<close> yields in a given encoder state.\<close>

definition dateRead :: "runtime \<Rightarrow> encoder \<Rightarrow> EFTTransactionSegment \<Rightarrow> Date" where
  "dateRead rt st segment =
     (case paymentDate segment of None \<Rightarrow> newDate rt (datesTaken st) | Some d \<Rightarrow> d)"

text \<open>
  The running sum \<open>total += segment.amount\<close> over a list of segments, in binary64
  arithmetic and in list order, and the number of physical records a transaction
  starts: one for every six segments, rounded up.
\<close>

definition runningSum :: "number \<Rightarrow> EFTTransactionSegment list \<Rightarrow> number" where
  "runningSum start segs = foldl numAdd start (map amount segs)"

definition physicalRecords :: "EFTTransaction \<Rightarrow> nat" where
  "physicalRecords transaction = (length (segments transaction) + 5) div 6"

definition segmentsOfType :: "string \<Rightarrow> EFTTransaction list \<Rightarrow> EFTTransactionSegment list" where
  "segmentsOfType letter eftTransactions =
     concat (map segments (filter (\<lambda>t. recordType t = letter) eftTransactions))"

definition recordsOfType :: "string \<Rightarrow> EFTTransaction list \<Rightarrow> nat" where
  "recordsOfType letter eftTransactions =
     sum_list (map physicalRecords (filter (\<lambda>t. recordType t = letter) eftTransactions))"

text \<open>
  What validation does not check, and the fixed-width layout needs, of the segment at
  position \<open>i\<close> of its transaction: a three-character CPA code, an amount of at most ten
  digits in cents, and an item trace number that fills 22 characters together with its
  position suffix.
\<close>

definition segmentFits :: "runtime \<Rightarrow> nat \<Rightarrow> EFTTransactionSegment \<Rightarrow> bool" where
  "segmentFits rt i segment =
     (length (toString rt (cpaCode segment)) = 3 \<and>
      length (centsText rt (amount segment)) \<le> 10 \<and>
      (case itemTraceNumber segment of
         None \<Rightarrow> True
       | Some t \<Rightarrow> length (t @ padStart 4 CHR ''0'' (natToString (i + 1))) = 22))"

definition transactionFits :: "runtime \<Rightarrow> EFTTransaction \<Rightarrow> bool" where
  "transactionFits rt transaction =
     list_all (\<lambda>i. segmentFits rt i (segments transaction ! i))
       [0..<length (segments transaction)]"

text \<open>What a segment, a transaction and a configuration satisfy when validation passes.\<close>

definition segmentChecked :: "EFTTransactionSegment \<Rightarrow> bool" where
  "segmentChecked segment =
     (\<not> leZero (amount segment) \<and> \<not> geHundredMillion (amount segment) \<and>
      digitsBetween 1 3 (bankInstitutionNumber segment) \<and>
      digitsBetween 1 5 (bankTransitNumber segment) \<and>
      digitsBetween 1 12 (bankAccountNumber segment))"

definition transactionChecked :: "EFTTransaction \<Rightarrow> bool" where
  "transactionChecked transaction =
     (recordType transaction \<in> set [''C'', ''D''] \<and>
      list_all segmentChecked (segments transaction))"

definition configChecked :: "EFTConfiguration \<Rightarrow> bool" where
  "configChecked eftConfig =
     (length (originatorId eftConfig) \<le> 10 \<and>
      digitsBetween 1 4 (fileCreationNumber eftConfig) \<and>
      digitsBetween 0 5 (case destinationDataCentre eftConfig of None \<Rightarrow> '''' | Some c \<Rightarrow> c) \<and>
      (case destinationCurrency eftConfig of None \<Rightarrow> '''' | Some c \<Rightarrow> c)
        \<in> set ['''', ''CAD'', ''USD''])"

text \<open>Loop invariants of the segment loop, at the head of the iteration for index \<open>i\<close>.\<close>

definition countInv :: "nat \<Rightarrow> encoder \<Rightarrow> bool" where
  "countInv i st =
     (if i = 0 then length (outputLines st) = recordCount st
      else Suc (length (outputLines st)) = recordCount st \<and> recordText st \<noteq> [])"

definition lineInv :: "nat \<Rightarrow> encoder \<Rightarrow> bool" where
  "lineInv i st =
     (recordCount st < 10 ^ 9 \<longrightarrow>
        list_all (\<lambda>l. length l = 1464) (outputLines st) \<and>
        (0 < i \<longrightarrow> length (recordText st) = 24 + 240 * ((i - 1) mod 6 + 1)))"

definition totalsInv :: "EFTTransaction \<Rightarrow> encoder \<Rightarrow> nat \<Rightarrow> encoder \<Rightarrow> bool" where
  "totalsInv transaction st i s =
     (if recordType transaction = ''C''
      then totalValueCredits s = runningSum (totalValueCredits st) (take i (segments transaction)) \<and>
           totalNumberCredits s = totalNumberCredits st + (i + 5) div 6 \<and>
           totalValueDebits s = totalValueDebits st \<and>
           totalNumberDebits s = totalNumberDebits st
      else totalValueDebits s = runningSum (totalValueDebits st) (take i (segments transaction)) \<and>
           totalNumberDebits s = totalNumberDebits st + (i + 5) div 6 \<and>
           totalValueCredits s = totalValueCredits st \<and>
           totalNumberCredits s = totalNumberCredits st)"

text \<open>
  The detail records as a function of the input.  \<open>undatedBefore segs j\<close> counts the
  segments before position \<open>j\<close> that have no payment date, each of which costs one
  \<open>new Date()\<close>; \<open>segmentDate\<close> is the date the segment at position \<open>j\<close> is encoded
  with when \<open>taken\<close> dates had been taken before its transaction; \<open>recordBody\<close> is the
  text of the segments at positions \<open>lo\<close> to \<open>hi - 1\<close> in a record numbered \<open>n\<close>;
  \<open>detailRecord\<close> is the text of the \<open>k\<close>-th record of a transaction (from 0) that is
  reached with \<open>recordCount = n\<close>; \<open>detailRecords\<close> are the lines the transaction adds,
  the last one padded; \<open>detailLines\<close> are the lines a list of transactions adds.
\<close>

definition undatedBefore :: "EFTTransactionSegment list \<Rightarrow> nat \<Rightarrow> nat" where
  "undatedBefore segs j = length (filter (\<lambda>s. paymentDate s = None) (take j segs))"

definition undated :: "EFTTransaction \<Rightarrow> nat" where
  "undated transaction =
     undatedBefore (segments transaction) (length (segments transaction))"

definition segmentDate :: "runtime \<Rightarrow> nat \<Rightarrow> EFTTransactionSegment list \<Rightarrow> nat \<Rightarrow> Date" where
  "segmentDate rt taken segs j =
     (case paymentDate (segs ! j) of
        None \<Rightarrow> newDate rt (taken + undatedBefore segs j)
      | Some d \<Rightarrow> d)"

definition recordBody ::
  "runtime \<Rightarrow> EFTConfiguration \<Rightarrow> nat \<Rightarrow> nat \<Rightarrow> EFTTransactionSegment list \<Rightarrow> nat \<Rightarrow> nat \<Rightarrow> string" where
  "recordBody rt eftConfig n taken segs lo hi =
     concat (map (\<lambda>j. segmentText rt eftConfig n j (segmentDate rt taken segs j) (segs ! j))
               [lo..<hi])"

definition detailRecord ::
  "runtime \<Rightarrow> EFTConfiguration \<Rightarrow> EFTTransaction \<Rightarrow> nat \<Rightarrow> nat \<Rightarrow> nat \<Rightarrow> string" where
  "detailRecord rt eftConfig transaction n taken k =
     recordPrefix eftConfig (recordType transaction) (n + k + 1) @
     recordBody rt eftConfig (n + k + 1) taken (segments transaction)
       (6 * k) (min (6 * k + 6) (length (segments transaction)))"

definition detailRecords ::
  "runtime \<Rightarrow> EFTConfiguration \<Rightarrow> EFTTransaction \<Rightarrow> nat \<Rightarrow> nat \<Rightarrow> string list" where
  "detailRecords rt eftConfig transaction n taken =
     map (\<lambda>k. if k + 1 = physicalRecords transaction
              then padEnd 1464 CHR '' '' (detailRecord rt eftConfig transaction n taken k)
              else detailRecord rt eftConfig transaction n taken k)
       [0..<physicalRecords transaction]"

fun detailLines ::
  "runtime \<Rightarrow> EFTConfiguration \<Rightarrow> nat \<Rightarrow> nat \<Rightarrow> EFTTransaction list \<Rightarrow> string list" where
  "detailLines rt eftConfig n taken [] = []"
| "detailLines rt eftConfig n taken (transaction # rest) =
     detailRecords rt eftConfig transaction n taken @
     detailLines rt eftConfig (n + physicalRecords transaction) (taken + undated transaction) rest"

text \<open>The loop invariant that ties the segment loop to \<open>detailRecord\<close>; \<open>st0\<close> is the
  state in which the loop starts.\<close>

definition recordInv ::
  "runtime \<Rightarrow> EFTConfiguration \<Rightarrow> EFTTransaction \<Rightarrow> encoder \<Rightarrow> nat \<Rightarrow> encoder \<Rightarrow> bool" where
  "recordInv rt eftConfig transaction st0 i s =
     (datesTaken s = datesTaken st0 + undatedBefore (segments transaction) i \<and>
      (if i = 0 then outputLines s = outputLines st0 \<and> recordCount s = recordCount st0
       else \<exists>k. 6 * k < i \<and> i \<le> 6 * k + 6 \<and>
              outputLines s =
                outputLines st0 @
                map (detailRecord rt eftConfig transaction (recordCount st0) (datesTaken st0))
                  [0..<k] \<and>
              recordCount s = recordCount st0 + k + 1 \<and>
              recordText s =
                recordPrefix eftConfig (recordType transaction) (recordCount st0 + k + 1) @
                recordBody rt eftConfig (recordCount st0 + k + 1) (datesTaken st0)
                  (segments transaction) (6 * k) i))"

text \<open>
  Reading a line: the number a string of decimal digits denotes, the sequence number of
  a physical record (its characters 2 to 10), and the cross-reference field of the text
  of one segment (the 19 characters that end 71 characters before its end).
\<close>

definition digitValue :: "char \<Rightarrow> nat" where
  "digitValue c = of_char c - 48"

definition stringToNat :: "string \<Rightarrow> nat" where
  "stringToNat s = foldl (\<lambda>a c. 10 * a + digitValue c) 0 s"

definition sequenceNumber :: "string \<Rightarrow> nat" where
  "sequenceNumber line = stringToNat (take 9 (drop 1 line))"

definition crossReferenceField :: "string \<Rightarrow> string" where
  "crossReferenceField txt = take 19 (drop (length txt - 90) txt)"

text \<open>
  Cross-reference numbers.  \<open>withoutCrossReferences\<close> is a transaction with the
  cross-reference number of every segment left out; \<open>crossReferences\<close> are the numbers
  the segments of a transaction list supply, in the order the validator meets them;
  \<open>repeats\<close> is how many of them repeat an earlier one: the supplied numbers less the
  distinct ones.  \<open>repeatsFrom seen\<close> counts, along the list, the numbers that are in
  \<open>seen\<close> or occurred earlier.
\<close>

definition withoutCrossReference :: "EFTTransactionSegment \<Rightarrow> EFTTransactionSegment" where
  "withoutCrossReference segment = segment\<lparr>crossReferenceNumber := None\<rparr>"

definition withoutCrossReferences :: "EFTTransaction \<Rightarrow> EFTTransaction" where
  "withoutCrossReferences transaction =
     transaction\<lparr>segments := map withoutCrossReference (segments transaction)\<rparr>"

definition suppliedReferences :: "EFTTransactionSegment list \<Rightarrow> string list" where
  "suppliedReferences segs = List.map_filter crossReferenceNumber segs"

definition crossReferences :: "EFTTransaction list \<Rightarrow> string list" where
  "crossReferences txs = concat (map (\<lambda>t. suppliedReferences (segments t)) txs)"

definition repeats :: "string list \<Rightarrow> nat" where
  "repeats xs = length xs - card (set xs)"

fun repeatsFrom :: "string set \<Rightarrow> string list \<Rightarrow> nat" where
  "repeatsFrom seen [] = 0"
| "repeatsFrom seen (x # xs) = (if x \<in> seen then 1 else 0) + repeatsFrom (insert x seen) xs"

section \<open>Example inputs\<close>

text \<open>
  A runtime whose code table knows only code 450, whose Julian date converter tells
  the epoch from every other day, and whose clock stands at 1 March 2024.
\<close>

definition exampleRuntime :: runtime where
  "exampleRuntime =
     \<lparr>isValidCPACode = (\<lambda>code. code = Fin 450),
      toShortModernJulianDate = (\<lambda>date. if date = 0 then ''70001'' else ''24061''),
      newDate = (\<lambda>k. 1709251200000),
      roundTripToString = (\<lambda>x. ''?'')\<rparr>"

definition exampleConfig :: EFTConfiguration where
  "exampleConfig =
     \<lparr>originatorId = ''0000012345'',
      originatorShortName = None,
      originatorLongName = ''Test Co'',
      fileCreationNumber = ''0001'',
      fileCreationDate = Some 0,
      destinationDataCentre = None,
      destinationCurrency = None\<rparr>"

definition exampleSegment :: EFTTransactionSegment where
  "exampleSegment =
     \<lparr>cpaCode = Fin 450,
      amount = Fin (25 / 2),
      paymentDate = Some 0,
      bankInstitutionNumber = ''001'',
      bankTransitNumber = ''12345'',
      itemTraceNumber = None,
      bankAccountNumber = ''123456789'',
      payeeName = ''Jane Doe'',
      crossReferenceNumber = None\<rparr>"

definition exampleTransaction :: EFTTransaction where
  "exampleTransaction = \<lparr>recordType = ''C'', segments = [exampleSegment]\<rparr>"

definition exampleGenerator :: EFTGenerator where
  "exampleGenerator =
     \<lparr>configuration = exampleConfig, transactions = [exampleTransaction]\<rparr>"

text \<open>A configuration with an eleven-character originator id, and one whose currency is
  the empty string.\<close>

definition longIdConfig :: EFTConfiguration where
  "longIdConfig = exampleConfig\<lparr>originatorId := ''00000123456''\<rparr>"

definition blankCurrencyConfig :: EFTConfiguration where
  "blankCurrencyConfig = exampleConfig\<lparr>destinationCurrency := Some ''''\<rparr>"

text \<open>The configuration of the example as validation leaves it, and the lines of the
  example.\<close>

definition exampleConfigValidated :: EFTConfiguration where
  "exampleConfigValidated = exampleConfig\<lparr>originatorShortName := Some ''Test Co''\<rparr>"

definition exampleLines :: "string list" where
  "exampleLines = encodeLines exampleRuntime exampleConfigValidated [exampleTransaction]"

text \<open>Six segments with the four-digit CPA code 1000 in one transaction.\<close>

definition wideSegment :: EFTTransactionSegment where
  "wideSegment = exampleSegment\<lparr>cpaCode := Fin 1000\<rparr>"

definition wideTransaction :: EFTTransaction where
  "wideTransaction =
     \<lparr>recordType = ''C'',
      segments = [wideSegment, wideSegment, wideSegment, wideSegment, wideSegment, wideSegment]\<rparr>"

definition wideGenerator :: EFTGenerator where
  "wideGenerator = \<lparr>configuration = exampleConfig, transactions = [wideTransaction]\<rparr>"

definition wideLines :: "string list" where
  "wideLines = encodeLines exampleRuntime exampleConfigValidated [wideTransaction]"

text \<open>One credit transaction with two segments.\<close>

definition pairTransaction :: EFTTransaction where
  "pairTransaction = \<lparr>recordType = ''C'', segments = [exampleSegment, exampleSegment]\<rparr>"

definition pairGenerator :: EFTGenerator where
  "pairGenerator = \<lparr>configuration = exampleConfig, transactions = [pairTransaction]\<rparr>"

definition pairLines :: "string list" where
  "pairLines = encodeLines exampleRuntime exampleConfigValidated [pairTransaction]"

text \<open>A segment of 99,999,999.99 dollars, and a transaction with no segments after the
  example transaction.\<close>

definition maxSegment :: EFTTransactionSegment where
  "maxSegment = exampleSegment\<lparr>amount := literal (9999999999 / 100)\<rparr>"

definition emptyTransaction :: EFTTransaction where
  "emptyTransaction = \<lparr>recordType = ''D'', segments = []\<rparr>"

definition emptyGenerator :: EFTGenerator where
  "emptyGenerator =
     \<lparr>configuration = exampleConfig, transactions = [exampleTransaction, emptyTransaction]\<rparr>"

text \<open>One credit transaction with seven segments.\<close>

definition sevenTransaction :: EFTTransaction where
  "sevenTransaction =
     \<lparr>recordType = ''C'',
      segments = [exampleSegment, exampleSegment, exampleSegment, exampleSegment,
                  exampleSegment, exampleSegment, exampleSegment]\<rparr>"

definition sevenGenerator :: EFTGenerator where
  "sevenGenerator = \<lparr>configuration = exampleConfig, transactions = [sevenTransaction]\<rparr>"

definition sevenLines :: "string list" where
  "sevenLines = encodeLines exampleRuntime exampleConfigValidated [sevenTransaction]"

text \<open>
  One credit transaction of three segments: the first two supply the same
  cross-reference number, the third supplies none.
\<close>

definition referenceSegment :: EFTTransactionSegment where
  "referenceSegment = exampleSegment\<lparr>crossReferenceNumber := Some ''INV-1''\<rparr>"

definition referenceTransaction :: EFTTransaction where
  "referenceTransaction =
     \<lparr>recordType = ''C'', segments = [referenceSegment, referenceSegment, exampleSegment]\<rparr>"

definition referenceGenerator :: EFTGenerator where
  "referenceGenerator =
     \<lparr>configuration = exampleConfig, transactions = [referenceTransaction]\<rparr>"

definition referenceLines :: "string list" where
  "referenceLines = encodeLines exampleRuntime exampleConfigValidated [referenceTransaction]"

text \<open>
  A runtime whose clock advances by one at every reading, and a file with no creation
  date whose only transaction has a dated segment followed by an undated one.
\<close>

definition tickingRuntime :: runtime where
  "tickingRuntime = exampleRuntime\<lparr>newDate := (\<lambda>k. int k)\<rparr>"

definition undatedConfig :: EFTConfiguration where
  "undatedConfig = exampleConfig\<lparr>fileCreationDate := None\<rparr>"

definition undatedSegment :: EFTTransactionSegment where
  "undatedSegment = exampleSegment\<lparr>paymentDate := None\<rparr>"

definition undatedTransaction :: EFTTransaction where
  "undatedTransaction = \<lparr>recordType = ''D'', segments = [exampleSegment, undatedSegment]\<rparr>"

definition undatedGenerator :: EFTGenerator where
  "undatedGenerator = \<lparr>configuration = undatedConfig, transactions = [undatedTransaction]\<rparr>"

definition undatedLines :: "string list" where
  "undatedLines =
     encodeLines tickingRuntime (undatedConfig\<lparr>originatorShortName := Some ''Test Co''\<rparr>)
       [undatedTransaction]"

section \<open>Strings and counters\<close>

lemma length_padStart: "length (padStart n c s) = max n (length s)"
  by (simp add: padStart_def)

lemma length_padEnd: "length (padEnd n c s) = max n (length s)"
  by (simp add: padEnd_def)

lemma length_sliceTo: "length (sliceTo n s) = min n (length s)"
  by (simp add: sliceTo_def)

lemma length_sliceLast: "length (sliceLast n s) = min n (length s)"
  by (simp add: sliceLast_def)

lemma padEnd_full: "n \<le> length s \<Longrightarrow> padEnd n c s = s"
  by (simp add: padEnd_def)

lemma padStart_full: "n \<le> length s \<Longrightarrow> padStart n c s = s"
  by (simp add: padStart_def)

lemma replicate_numeral: "replicate (numeral k) x = x # replicate (pred_numeral k) x"
  by (simp add: numeral_eq_Suc)

lemma natToString_digit: "n < 10 \<Longrightarrow> natToString n = [digitChar n]"
  by (subst natToString.simps) simp

lemma natToString_step:
  "10 \<le> n \<Longrightarrow> natToString n = natToString (n div 10) @ [digitChar (n mod 10)]"
  by (subst natToString.simps) simp

lemmas natToString_eval = natToString_digit natToString_step digitChar_def

lemma natToString_not_Nil: "natToString n \<noteq> []"
  by (subst natToString.simps) simp

lemma length_natToString: "0 < k \<Longrightarrow> n < 10 ^ k \<Longrightarrow> length (natToString n) \<le> k"
proof (induction n arbitrary: k rule: natToString.induct)
  case (1 n)
  show ?case
  proof (cases "n < 10")
    case True
    with "1.prems" show ?thesis by (simp add: natToString_digit)
  next
    case False
    then obtain j where k: "k = Suc j" and j: "0 < j"
      using "1.prems" by (cases k; cases "k - 1") auto
    from "1.prems" k have "n div 10 < 10 ^ j"
      by (simp add: less_mult_imp_div_less mult.commute)
    with "1.IH" [OF False j] have "length (natToString (n div 10)) \<le> j" .
    with False k show ?thesis by (simp add: natToString_step)
  qed
qed

lemma floor_rat_numeral_divide: "\<lfloor>numeral a / numeral b :: rat\<rfloor> = numeral a div numeral b"
  by (metis floor_divide_of_int_eq of_int_numeral)

lemma mod6_pred: "0 < i \<Longrightarrow> i mod 6 = 0 \<Longrightarrow> (i - 1) mod 6 = (5::nat)"
  by (cases i) (auto simp: mod_Suc split: if_splits)

lemma mod6_succ: "i mod 6 \<noteq> 0 \<Longrightarrow> (i - 1) mod 6 + 1 = (i::nat) mod 6"
  by (cases i) (auto simp: mod_Suc split: if_splits)

lemma div6_step: "(Suc i + 5) div 6 = (i + 5) div 6 + (if i mod 6 = 0 then 1 else (0::nat))"
proof -
  have "Suc (i + 5) mod 6 = (i + 6) mod 6" by simp
  also have "\<dots> = i mod 6" by (simp only: mod_add_self2)
  finally have m: "Suc (i + 5) mod 6 = i mod 6" .
  have "(Suc i + 5) div 6 = Suc (i + 5) div 6" by simp
  also have "\<dots> = (if Suc (i + 5) mod 6 = 0 then Suc ((i + 5) div 6) else (i + 5) div 6)"
    by (rule div_Suc)
  finally show ?thesis by (simp only: m) simp
qed

lemma div6_round: "(i + 5) div 6 = (if i mod 6 = 0 then i div 6 else i div 6 + (1::nat))"
  using div6_step [of i] by (simp split: if_splits)

section \<open>What passing validation establishes\<close>

lemma digitsBetween_empty: "digitsBetween 0 n ''''"
  by (simp add: digitsBetween_def)

lemma validateSegment_Inr:
  "validateSegment rt segment st = Inr st' \<Longrightarrow> segmentChecked segment"
  by (auto simp: validateSegment_def segmentChecked_def Let_def split: prod.splits if_splits)

lemma validateSegments_Inr:
  "validateSegments rt segs st = Inr st' \<Longrightarrow> list_all segmentChecked segs"
  by (induction segs arbitrary: st) (auto split: sum.splits dest: validateSegment_Inr)

lemma validateTransaction_Inr:
  "validateTransaction rt transaction st = Inr st' \<Longrightarrow> transactionChecked transaction"
  by (auto simp: validateTransaction_def transactionChecked_def Let_def
      split: prod.splits if_splits dest: validateSegments_Inr)

lemma validateTransactionLoop_Inr:
  "validateTransactionLoop rt txs st = Inr st' \<Longrightarrow> list_all transactionChecked txs"
  by (induction txs arbitrary: st) (auto split: sum.splits dest: validateTransaction_Inr)

lemma validateTransactions_Inr:
  "validateTransactions rt txs = Inr w \<Longrightarrow> list_all transactionChecked txs"
  by (auto simp: validateTransactions_def split: sum.splits if_splits prod.splits
      dest: validateTransactionLoop_Inr)

lemma validateConfig_Inr:
  "snd (validateConfig eftConfig) = Inr w \<Longrightarrow> configChecked eftConfig"
  by (auto simp: validateConfig_def configChecked_def Let_def split: option.splits if_splits)

lemma validateConfig_fst:
  "fst (validateConfig eftConfig) = eftConfig \<or>
   fst (validateConfig eftConfig) =
     eftConfig\<lparr>originatorShortName := Some (originatorLongName eftConfig)\<rparr>"
  by (auto simp: validateConfig_def Let_def split: option.splits if_splits)

lemma validateConfig_Inr_fst:
  assumes "snd (validateConfig eftConfig) = Inr w"
  shows "configChecked (fst (validateConfig eftConfig))"
    and "destinationCurrency (fst (validateConfig eftConfig)) = destinationCurrency eftConfig"
  using validateConfig_Inr [OF assms] validateConfig_fst [of eftConfig]
  by (auto simp: configChecked_def)

lemma formatLines_Inr:
  assumes "snd (formatLines rt eftGenerator) = Inr lines"
  obtains w1 w2 where "snd (validateConfig (configuration eftGenerator)) = Inr w1"
    and "validateTransactions rt (transactions eftGenerator) = Inr w2"
    and "lines = encodeLines rt (fst (validateConfig (configuration eftGenerator)))
                   (transactions eftGenerator)"
  using assms
  by (auto simp: formatLines_def validateCPA005_def getConfiguration_def getTransactions_def
      split: prod.splits sum.splits)

section \<open>The segment loop\<close>

text \<open>
  An invariant that holds at the head of the first iteration and is kept by every
  iteration holds when the loop is left.
\<close>

lemma segmentLoop_invariant:
  assumes "P segmentIndex st"
    and "\<And>i s. segmentIndex \<le> i \<Longrightarrow> i < length (segments transaction) \<Longrightarrow> P i s
           \<Longrightarrow> P (Suc i) (segmentStep rt eftConfig transaction i s)"
  shows "P (max segmentIndex (length (segments transaction)))
           (segmentLoop rt eftConfig transaction segmentIndex st)"
  using assms
proof (induction rt eftConfig transaction segmentIndex st rule: segmentLoop.induct)
  case (1 rt eftConfig transaction segmentIndex st)
  show ?case
  proof (cases "segmentIndex < length (segments transaction)")
    case True
    have "P (Suc segmentIndex) (segmentStep rt eftConfig transaction segmentIndex st)"
      using "1.prems" True by simp
    moreover have "\<And>i s. Suc segmentIndex \<le> i \<Longrightarrow> i < length (segments transaction) \<Longrightarrow> P i s
           \<Longrightarrow> P (Suc i) (segmentStep rt eftConfig transaction i s)"
      using "1.prems"(2) by simp
    ultimately have "P (max (segmentIndex + 1) (length (segments transaction)))
           (segmentLoop rt eftConfig transaction (segmentIndex + 1)
              (segmentStep rt eftConfig transaction segmentIndex st))"
      using "1.IH" [OF True] by simp
    with True show ?thesis
      by (subst segmentLoop.simps) (simp add: max_def)
  next
    case False
    with "1.prems"(1) show ?thesis
      by (subst segmentLoop.simps) (simp add: max_def)
  qed
qed

lemma segmentLoop_Nil:
  "segments transaction = [] \<Longrightarrow> segmentLoop rt eftConfig transaction i st = st"
  by (subst segmentLoop.simps) simp

text \<open>What one iteration does to each variable.\<close>

lemma segmentStep_outputLines:
  "outputLines (segmentStep rt eftConfig transaction i st) =
     (if i mod 6 = 0 \<and> 0 < i then outputLines st @ [recordText st] else outputLines st)"
  by (simp add: segmentStep_def Let_def split: option.splits)

lemma segmentStep_recordCount:
  "recordCount (segmentStep rt eftConfig transaction i st) =
     (if i mod 6 = 0 then recordCount st + 1 else recordCount st)"
  by (simp add: segmentStep_def Let_def split: option.splits)

lemma segmentStep_datesTaken:
  "datesTaken (segmentStep rt eftConfig transaction i st) =
     (case paymentDate (segments transaction ! i) of
        None \<Rightarrow> datesTaken st + 1
      | Some d \<Rightarrow> datesTaken st)"
  by (simp add: segmentStep_def Let_def split: option.splits)

lemma segmentStep_recordText:
  "recordText (segmentStep rt eftConfig transaction i st) =
     (if i mod 6 = 0 then recordPrefix eftConfig (recordType transaction) (recordCount st + 1)
      else recordText st) @
     segmentText rt eftConfig (if i mod 6 = 0 then recordCount st + 1 else recordCount st) i
       (dateRead rt st (segments transaction ! i)) (segments transaction ! i)"
  by (simp add: segmentStep_def Let_def recordPrefix_def dateRead_def split: option.splits)

lemma segmentStep_totals:
  "totalValueCredits (segmentStep rt eftConfig transaction i st) =
     (if recordType transaction = ''C''
      then numAdd (totalValueCredits st) (amount (segments transaction ! i))
      else totalValueCredits st)"
  "totalValueDebits (segmentStep rt eftConfig transaction i st) =
     (if recordType transaction = ''C'' then totalValueDebits st
      else numAdd (totalValueDebits st) (amount (segments transaction ! i)))"
  "totalNumberCredits (segmentStep rt eftConfig transaction i st) =
     (if recordType transaction = ''C'' \<and> i mod 6 = 0 then totalNumberCredits st + 1
      else totalNumberCredits st)"
  "totalNumberDebits (segmentStep rt eftConfig transaction i st) =
     (if recordType transaction \<noteq> ''C'' \<and> i mod 6 = 0 then totalNumberDebits st + 1
      else totalNumberDebits st)"
  by (simp_all add: segmentStep_def Let_def split: option.splits)

lemma segmentText_not_Nil: "segmentText rt eftConfig n i d segment \<noteq> []"
  by (simp add: segmentText_def padStart_def Let_def)

lemma segmentLoop_recordText_not_Nil:
  assumes "segments transaction \<noteq> []"
  shows "recordText (segmentLoop rt eftConfig transaction 0 st) \<noteq> []"
proof -
  have "0 < max 0 (length (segments transaction)) \<longrightarrow>
        recordText (segmentLoop rt eftConfig transaction 0 st) \<noteq> []"
    by (rule segmentLoop_invariant [where P = "\<lambda>i s. 0 < i \<longrightarrow> recordText s \<noteq> []"])
       (simp_all add: segmentStep_recordText segmentText_not_Nil)
  with assms show ?thesis by simp
qed

lemma transactionStep_outputLines:
  "outputLines (transactionStep rt eftConfig st transaction) =
     (let s = segmentLoop rt eftConfig transaction 0 (st\<lparr>recordText := []\<rparr>)
      in if segments transaction = [] then outputLines st
         else outputLines s @ [padEnd 1464 CHR '' '' (recordText s)])"
  by (simp add: transactionStep_def Let_def segmentLoop_Nil segmentLoop_recordText_not_Nil)

lemma transactionStep_recordCount:
  "recordCount (transactionStep rt eftConfig st transaction) =
   recordCount (segmentLoop rt eftConfig transaction 0 (st\<lparr>recordText := []\<rparr>))"
  by (simp add: transactionStep_def Let_def)

section \<open>Every pushed line is counted\<close>

lemma segmentStep_countInv:
  "countInv i st \<Longrightarrow> countInv (Suc i) (segmentStep rt eftConfig transaction i st)"
  by (auto simp: countInv_def segmentStep_def Let_def segmentText_not_Nil split: option.splits)

lemma segmentLoop_countInv:
  assumes "length (outputLines st) = recordCount st"
  shows "countInv (length (segments transaction)) (segmentLoop rt eftConfig transaction 0 st)"
proof -
  have "countInv (max 0 (length (segments transaction)))
          (segmentLoop rt eftConfig transaction 0 st)"
    by (rule segmentLoop_invariant)
       (simp_all add: countInv_def assms segmentStep_countInv [unfolded countInv_def])
  then show ?thesis by simp
qed

lemma transactionStep_count:
  assumes "length (outputLines st) = recordCount st"
  shows "length (outputLines (transactionStep rt eftConfig st transaction)) =
         recordCount (transactionStep rt eftConfig st transaction)"
proof (cases "segments transaction = []")
  case True
  then show ?thesis using assms by (simp add: transactionStep_def segmentLoop_Nil)
next
  case False
  then show ?thesis
    using segmentLoop_countInv [of "st\<lparr>recordText := []\<rparr>" transaction rt eftConfig] assms
    by (simp add: transactionStep_def countInv_def Let_def)
qed

lemma foldl_transactionStep_count:
  "length (outputLines st) = recordCount st \<Longrightarrow>
   length (outputLines (foldl (transactionStep rt eftConfig) st txs)) =
   recordCount (foldl (transactionStep rt eftConfig) st txs)"
  by (induction txs arbitrary: st) (simp_all add: transactionStep_count)

lemma encodeLines_count:
  "length (encodeLines rt eftConfig txs) = recordCount (encodeTransactions rt eftConfig txs) + 1"
  using foldl_transactionStep_count [of "initialEncoder rt eftConfig" rt eftConfig txs]
  by (simp add: encodeLines_def Let_def encodeTransactions_def initialEncoder_def)

section \<open>Line lengths\<close>

lemma length_segmentText:
  assumes "segmentFits rt i segment" and "segmentChecked segment"
    and "\<forall>d. length (toShortModernJulianDate rt d) = 5"
  shows "length (segmentText rt eftConfig n i d segment) = 240"
  using assms
  by (auto simp: segmentText_def segmentFits_def segmentChecked_def centsText_def Let_def
      length_padStart length_padEnd length_sliceTo toJulianDate_def digitsBetween_def
      split: option.splits)

lemma length_recordPrefix:
  assumes "length letter = 1" and "n < 10 ^ 9" and "length (originatorId eftConfig) \<le> 10"
    and "length (fileCreationNumber eftConfig) \<le> 4"
  shows "length (recordPrefix eftConfig letter n) = 24"
  using assms length_natToString [of 9 n]
  by (simp add: recordPrefix_def length_padStart length_padEnd)

lemma length_formatHeader:
  assumes "configChecked eftConfig" and "destinationCurrency eftConfig \<noteq> Some ''''"
    and "\<forall>d. length (toShortModernJulianDate rt d) = 5"
  shows "length (formatHeader rt eftConfig) = 1464"
  using assms
  by (auto simp: formatHeader_def configChecked_def Let_def length_padStart length_padEnd
      length_sliceLast toJulianDate_def digitsBetween_def split: option.splits)

lemma length_formatTrailer:
  assumes "length (originatorId eftConfig) \<le> 10"
    and "recordCount st + 1 < 10 ^ 9"
    and "totalNumberDebits st < 10 ^ 8" and "totalNumberCredits st < 10 ^ 8"
    and "length (centsText rt (totalValueDebits st)) \<le> 14"
    and "length (centsText rt (totalValueCredits st)) \<le> 14"
  shows "length (formatTrailer rt eftConfig st) = 1464"
  using assms length_natToString [of 9 "recordCount st + 1"]
    length_natToString [of 8 "totalNumberDebits st"]
    length_natToString [of 8 "totalNumberCredits st"]
  by (simp add: formatTrailer_def length_padStart length_padEnd length_sliceLast centsText_def)

lemma segmentStep_lineInv:
  assumes "length (recordType transaction) = 1"
    and "length (originatorId eftConfig) \<le> 10"
    and "length (fileCreationNumber eftConfig) \<le> 4"
    and "\<forall>d. length (toShortModernJulianDate rt d) = 5"
    and "segmentFits rt i (segments transaction ! i)"
    and "segmentChecked (segments transaction ! i)"
    and "lineInv i st"
  shows "lineInv (Suc i) (segmentStep rt eftConfig transaction i st)"
proof (cases "i mod 6 = 0")
  case True
  show ?thesis
    unfolding lineInv_def
  proof (intro impI conjI)
    assume b: "recordCount (segmentStep rt eftConfig transaction i st) < 10 ^ 9"
    with True have b': "recordCount st + 1 < 10 ^ 9" by (simp add: segmentStep_recordCount)
    with assms(7) have old: "list_all (\<lambda>l. length l = 1464) (outputLines st)"
      and rec: "0 < i \<longrightarrow> length (recordText st) = 24 + 240 * ((i - 1) mod 6 + 1)"
      by (simp_all add: lineInv_def)
    have "0 < i \<longrightarrow> length (recordText st) = 1464"
    proof
      assume "0 < i"
      with rec mod6_pred [OF _ True] show "length (recordText st) = 1464" by simp
    qed
    with old True show "list_all (\<lambda>l. length l = 1464)
        (outputLines (segmentStep rt eftConfig transaction i st))"
      by (simp add: segmentStep_outputLines)
    have "length (recordPrefix eftConfig (recordType transaction) (recordCount st + 1)) = 24"
      using assms(1-3) b' by (intro length_recordPrefix) simp_all
    moreover have "(Suc i - 1) mod 6 + 1 = 1" using True by simp
    ultimately show "length (recordText (segmentStep rt eftConfig transaction i st)) =
        24 + 240 * ((Suc i - 1) mod 6 + 1)"
      using True
      by (simp only: segmentStep_recordText length_segmentText [OF assms(5,6,4)]
            length_append if_True) simp
  qed
next
  case False
  then have pos: "0 < i" by (cases i) auto
  show ?thesis
    unfolding lineInv_def
  proof (intro impI conjI)
    assume b: "recordCount (segmentStep rt eftConfig transaction i st) < 10 ^ 9"
    with False have b': "recordCount st < 10 ^ 9" by (simp add: segmentStep_recordCount)
    with assms(7) pos have old: "list_all (\<lambda>l. length l = 1464) (outputLines st)"
      and rec: "length (recordText st) = 24 + 240 * ((i - 1) mod 6 + 1)"
      by (simp_all add: lineInv_def)
    from old False show "list_all (\<lambda>l. length l = 1464)
        (outputLines (segmentStep rt eftConfig transaction i st))"
      by (simp add: segmentStep_outputLines)
    have "length (recordText (segmentStep rt eftConfig transaction i st)) =
        length (recordText st) + 240"
      using False
      by (simp only: segmentStep_recordText length_segmentText [OF assms(5,6,4)]
            length_append if_False)
    also have "\<dots> = 24 + 240 * (i mod 6) + 240"
      using rec mod6_succ [OF False] by simp
    also have "\<dots> = 24 + 240 * ((Suc i - 1) mod 6 + 1)"
      by simp
    finally show "length (recordText (segmentStep rt eftConfig transaction i st)) =
        24 + 240 * ((Suc i - 1) mod 6 + 1)" .
  qed
qed

lemma segmentLoop_lineInv:
  assumes "length (recordType transaction) = 1"
    and "length (originatorId eftConfig) \<le> 10"
    and "length (fileCreationNumber eftConfig) \<le> 4"
    and "\<forall>d. length (toShortModernJulianDate rt d) = 5"
    and "transactionFits rt transaction"
    and "list_all segmentChecked (segments transaction)"
    and "lineInv 0 st"
  shows "lineInv (length (segments transaction)) (segmentLoop rt eftConfig transaction 0 st)"
proof -
  have "lineInv (max 0 (length (segments transaction)))
          (segmentLoop rt eftConfig transaction 0 st)"
  proof (rule segmentLoop_invariant)
    show "lineInv 0 st" by fact
  next
    fix i s
    assume i: "i < length (segments transaction)" and s: "lineInv i s"
    from i assms(6) have "segmentChecked (segments transaction ! i)"
      by (simp add: list_all_length)
    moreover from i assms(5) have "segmentFits rt i (segments transaction ! i)"
      by (simp add: transactionFits_def list_all_iff)
    ultimately show "lineInv (Suc i) (segmentStep rt eftConfig transaction i s)"
      using s assms(1-4) by (intro segmentStep_lineInv) simp_all
  qed
  then show ?thesis by simp
qed

lemma transactionStep_lineInv:
  assumes "transactionChecked transaction"
    and "length (originatorId eftConfig) \<le> 10"
    and "length (fileCreationNumber eftConfig) \<le> 4"
    and "\<forall>d. length (toShortModernJulianDate rt d) = 5"
    and "transactionFits rt transaction"
    and "lineInv 0 st"
  shows "lineInv 0 (transactionStep rt eftConfig st transaction)"
proof (cases "segments transaction = []")
  case True
  with assms(6) show ?thesis
    by (simp add: lineInv_def transactionStep_def segmentLoop_Nil)
next
  case False
  define s where "s = segmentLoop rt eftConfig transaction 0 (st\<lparr>recordText := []\<rparr>)"
  from assms(1) have letter: "length (recordType transaction) = 1"
    and chk: "list_all segmentChecked (segments transaction)"
    by (auto simp: transactionChecked_def)
  from assms(6) have "lineInv 0 (st\<lparr>recordText := []\<rparr>)"
    by (simp add: lineInv_def)
  from segmentLoop_lineInv [OF letter assms(2-5) chk this]
  have inv: "lineInv (length (segments transaction)) s"
    by (simp add: s_def)
  show ?thesis
    unfolding lineInv_def
  proof (intro impI conjI)
    assume "recordCount (transactionStep rt eftConfig st transaction) < 10 ^ 9"
    then have "recordCount s < 10 ^ 9"
      by (simp add: transactionStep_recordCount s_def)
    with inv False have old: "list_all (\<lambda>l. length l = 1464) (outputLines s)"
      and rec: "length (recordText s) =
                  24 + 240 * ((length (segments transaction) - 1) mod 6 + 1)"
      by (simp_all add: lineInv_def)
    have "(length (segments transaction) - 1) mod 6 < 6" by simp
    then have "240 * ((length (segments transaction) - 1) mod 6 + 1) \<le> 1440" by simp
    with rec have "length (recordText s) \<le> 1464" by simp
    then have "length (padEnd 1464 CHR '' '' (recordText s)) = 1464"
      by (simp add: length_padEnd)
    with old False
    show "list_all (\<lambda>l. length l = 1464)
            (outputLines (transactionStep rt eftConfig st transaction))"
      by (simp add: transactionStep_outputLines s_def [symmetric])
  qed simp
qed

lemma foldl_transactionStep_lineInv:
  assumes "length (originatorId eftConfig) \<le> 10"
    and "length (fileCreationNumber eftConfig) \<le> 4"
    and "\<forall>d. length (toShortModernJulianDate rt d) = 5"
  shows "list_all transactionChecked txs \<Longrightarrow> list_all (transactionFits rt) txs \<Longrightarrow>
    lineInv 0 st \<Longrightarrow> lineInv 0 (foldl (transactionStep rt eftConfig) st txs)"
proof (induction txs arbitrary: st)
  case Nil
  then show ?case by simp
next
  case (Cons t txs)
  from Cons.prems have "lineInv 0 (transactionStep rt eftConfig st t)"
    by (intro transactionStep_lineInv assms) simp_all
  with Cons.prems show ?case
    by (simp add: Cons.IH)
qed

section \<open>Totals\<close>

lemma runningSum_snoc:
  "i < length segs \<Longrightarrow>
   runningSum start (take (Suc i) segs) =
   numAdd (runningSum start (take i segs)) (amount (segs ! i))"
  by (simp add: runningSum_def take_Suc_conv_app_nth)

lemma runningSum_append:
  "runningSum start (xs @ ys) = runningSum (runningSum start xs) ys"
  by (simp add: runningSum_def)

lemma segmentStep_totalsInv:
  assumes "i < length (segments transaction)" and "totalsInv transaction st i s"
  shows "totalsInv transaction st (Suc i) (segmentStep rt eftConfig transaction i s)"
proof (cases "recordType transaction = ''C''")
  case True
  with assms(2) show ?thesis
    by (simp add: totalsInv_def segmentStep_totals runningSum_snoc [OF assms(1)] div6_round)
next
  case False
  with assms(2) show ?thesis
    by (simp add: totalsInv_def segmentStep_totals runningSum_snoc [OF assms(1)] div6_round)
qed

lemma segmentLoop_totalsInv:
  "totalsInv transaction st (length (segments transaction))
     (segmentLoop rt eftConfig transaction 0 st)"
proof -
  have "totalsInv transaction st (max 0 (length (segments transaction)))
          (segmentLoop rt eftConfig transaction 0 st)"
    by (rule segmentLoop_invariant)
       (simp_all add: segmentStep_totalsInv, simp add: totalsInv_def runningSum_def)
  then show ?thesis by simp
qed

lemma transactionStep_totals:
  "totalValueCredits (transactionStep rt eftConfig st transaction) =
     (if recordType transaction = ''C''
      then runningSum (totalValueCredits st) (segments transaction) else totalValueCredits st)"
  "totalValueDebits (transactionStep rt eftConfig st transaction) =
     (if recordType transaction = ''C'' then totalValueDebits st
      else runningSum (totalValueDebits st) (segments transaction))"
  "totalNumberCredits (transactionStep rt eftConfig st transaction) =
     (if recordType transaction = ''C''
      then totalNumberCredits st + physicalRecords transaction else totalNumberCredits st)"
  "totalNumberDebits (transactionStep rt eftConfig st transaction) =
     (if recordType transaction = ''C'' then totalNumberDebits st
      else totalNumberDebits st + physicalRecords transaction)"
  using segmentLoop_totalsInv [of transaction "st\<lparr>recordText := []\<rparr>" rt eftConfig]
  by (simp_all add: transactionStep_def Let_def totalsInv_def physicalRecords_def
      split: if_splits)

lemma foldl_transactionStep_totals:
  "totalValueCredits (foldl (transactionStep rt eftConfig) st txs) =
     runningSum (totalValueCredits st)
       (concat (map segments (filter (\<lambda>t. recordType t = ''C'') txs)))"
  "totalValueDebits (foldl (transactionStep rt eftConfig) st txs) =
     runningSum (totalValueDebits st)
       (concat (map segments (filter (\<lambda>t. recordType t \<noteq> ''C'') txs)))"
  "totalNumberCredits (foldl (transactionStep rt eftConfig) st txs) =
     totalNumberCredits st +
     sum_list (map physicalRecords (filter (\<lambda>t. recordType t = ''C'') txs))"
  "totalNumberDebits (foldl (transactionStep rt eftConfig) st txs) =
     totalNumberDebits st +
     sum_list (map physicalRecords (filter (\<lambda>t. recordType t \<noteq> ''C'') txs))"
  by (induction txs arbitrary: st)
     (simp_all add: transactionStep_totals runningSum_append, simp_all add: runningSum_def)

lemma filter_not_credit:
  "list_all transactionChecked txs \<Longrightarrow>
   filter (\<lambda>t. recordType t \<noteq> ''C'') txs = filter (\<lambda>t. recordType t = ''D'') txs"
  by (induction txs) (auto simp: transactionChecked_def)

lemma encodeTransactions_totals:
  "totalValueCredits (encodeTransactions rt eftConfig txs) =
     runningSum (Fin 0) (segmentsOfType ''C'' txs)"
  "totalNumberCredits (encodeTransactions rt eftConfig txs) = recordsOfType ''C'' txs"
  "list_all transactionChecked txs \<Longrightarrow>
   totalValueDebits (encodeTransactions rt eftConfig txs) =
     runningSum (Fin 0) (segmentsOfType ''D'' txs)"
  "list_all transactionChecked txs \<Longrightarrow>
   totalNumberDebits (encodeTransactions rt eftConfig txs) = recordsOfType ''D'' txs"
  by (simp_all add: encodeTransactions_def foldl_transactionStep_totals initialEncoder_def
      segmentsOfType_def recordsOfType_def filter_not_credit)

lemma segmentStep_numbers:
  "totalNumberDebits st + totalNumberCredits st < recordCount st \<Longrightarrow>
   totalNumberDebits (segmentStep rt eftConfig transaction i st) +
   totalNumberCredits (segmentStep rt eftConfig transaction i st) <
   recordCount (segmentStep rt eftConfig transaction i st)"
  by (simp add: segmentStep_totals segmentStep_recordCount)

lemma transactionStep_numbers:
  assumes "totalNumberDebits st + totalNumberCredits st < recordCount st"
  shows "totalNumberDebits (transactionStep rt eftConfig st transaction) +
   totalNumberCredits (transactionStep rt eftConfig st transaction) <
   recordCount (transactionStep rt eftConfig st transaction)"
proof -
  let ?s = "segmentLoop rt eftConfig transaction 0 (st\<lparr>recordText := []\<rparr>)"
  have "totalNumberDebits ?s + totalNumberCredits ?s < recordCount ?s"
    by (rule segmentLoop_invariant
          [where P = "\<lambda>i s. totalNumberDebits s + totalNumberCredits s < recordCount s"])
       (simp_all add: assms segmentStep_numbers)
  then show ?thesis
    by (simp add: transactionStep_def Let_def)
qed

lemma foldl_transactionStep_numbers:
  "totalNumberDebits st + totalNumberCredits st < recordCount st \<Longrightarrow>
   totalNumberDebits (foldl (transactionStep rt eftConfig) st txs) +
   totalNumberCredits (foldl (transactionStep rt eftConfig) st txs) <
   recordCount (foldl (transactionStep rt eftConfig) st txs)"
  by (induction txs arbitrary: st) (simp_all add: transactionStep_numbers)

lemma encodeTransactions_numbers:
  "totalNumberDebits (encodeTransactions rt eftConfig txs) +
   totalNumberCredits (encodeTransactions rt eftConfig txs) <
   recordCount (encodeTransactions rt eftConfig txs)"
  unfolding encodeTransactions_def
  by (rule foldl_transactionStep_numbers) (simp add: initialEncoder_def)

section \<open>Evaluating the examples\<close>

lemma roundToDouble_25_2: "roundToDouble (25 / 2) = Fin (25 / 2)"
  by code_simp

lemma roundToDouble_25: "roundToDouble 25 = Fin 25"
  by code_simp

lemma roundToDouble_1250: "roundToDouble 1250 = Fin 1250"
  by code_simp

lemma roundToDouble_2500: "roundToDouble 2500 = Fin 2500"
  by code_simp

lemma toString_450: "toString rt (Fin 450) = ''450''"
  by (simp add: toString_def natToString_eval)

lemma centsText_zero: "centsText rt (Fin 0) = ''0''"
  by (simp add: centsText_def roundToDouble_def toString_def natToString_eval)

lemma centsText_example: "centsText rt (Fin (25 / 2)) = ''1250''"
  by (simp add: centsText_def roundToDouble_1250 toString_def natToString_eval
      floor_rat_numeral_divide)

lemma validateConfig_example:
  "validateConfig exampleConfig =
     (exampleConfig\<lparr>originatorShortName := Some ''Test Co''\<rparr>, Inr 1)"
  by (simp add: validateConfig_def exampleConfig_def digitsBetween_def isDigit_def)

lemma validateSegment_example:
  "validateSegment exampleRuntime exampleSegment (w, seen) = Inr (w, seen)"
  by (simp add: validateSegment_def exampleSegment_def exampleRuntime_def digitsBetween_def
      isDigit_def)

lemma validateTransactions_example:
  "validateTransactions exampleRuntime [exampleTransaction] = Inr 0"
  by (simp add: validateTransactions_def validateTransaction_def exampleTransaction_def
      validateSegment_example)

lemma segmentFits_example: "segmentFits exampleRuntime i exampleSegment"
  by (simp add: segmentFits_def exampleSegment_def toString_450 centsText_example)

lemma julian_example: "length (toShortModernJulianDate exampleRuntime d) = 5"
  by (simp add: exampleRuntime_def)

lemma segmentLoop_step:
  "i < length (segments transaction) \<Longrightarrow>
   segmentLoop rt eftConfig transaction i st =
   segmentLoop rt eftConfig transaction (Suc i) (segmentStep rt eftConfig transaction i st)"
  by (subst segmentLoop.simps) simp

lemma segmentLoop_done:
  "\<not> i < length (segments transaction) \<Longrightarrow> segmentLoop rt eftConfig transaction i st = st"
  by (subst segmentLoop.simps) simp

lemma formatLines_example:
  "snd (formatLines exampleRuntime exampleGenerator) = Inr exampleLines"
  by (simp add: formatLines_def validateCPA005_def getConfiguration_def getTransactions_def
      exampleGenerator_def validateConfig_example validateTransactions_example
      exampleLines_def exampleConfigValidated_def)

lemma validateConfig_exampleGenerator:
  "fst (validateConfig (configuration exampleGenerator)) = exampleConfigValidated"
  by (simp add: exampleGenerator_def validateConfig_example exampleConfigValidated_def)

lemma recordCount_example:
  "recordCount (encodeTransactions exampleRuntime exampleConfigValidated [exampleTransaction]) = 2"
  by (simp add: encodeTransactions_def transactionStep_recordCount segmentLoop_step
      segmentLoop_done segmentStep_recordCount exampleTransaction_def initialEncoder_def)

section \<open>The record count\<close>

lemma segmentLoop_recordCount:
  "recordCount (segmentLoop rt eftConfig transaction 0 st) =
   recordCount st + physicalRecords transaction"
proof -
  have "recordCount (segmentLoop rt eftConfig transaction 0 st) =
        recordCount st + (max 0 (length (segments transaction)) + 5) div 6"
    by (rule segmentLoop_invariant
          [where P = "\<lambda>i s. recordCount s = recordCount st + (i + 5) div 6"])
       (simp_all add: segmentStep_recordCount div6_round)
  then show ?thesis by (simp add: physicalRecords_def)
qed

lemma foldl_transactionStep_recordCount:
  "recordCount (foldl (transactionStep rt eftConfig) st txs) =
   recordCount st + sum_list (map physicalRecords txs)"
  by (induction txs arbitrary: st)
     (simp_all add: transactionStep_recordCount segmentLoop_recordCount)

lemma encodeTransactions_recordCount:
  "recordCount (encodeTransactions rt eftConfig txs) = 1 + sum_list (map physicalRecords txs)"
  by (simp add: encodeTransactions_def foldl_transactionStep_recordCount initialEncoder_def)

lemma validateConfig_keeps:
  "originatorId (fst (validateConfig eftConfig)) = originatorId eftConfig"
  "fileCreationNumber (fst (validateConfig eftConfig)) = fileCreationNumber eftConfig"
  "originatorLongName (fst (validateConfig eftConfig)) = originatorLongName eftConfig"
  "fileCreationDate (fst (validateConfig eftConfig)) = fileCreationDate eftConfig"
  "destinationDataCentre (fst (validateConfig eftConfig)) = destinationDataCentre eftConfig"
  "destinationCurrency (fst (validateConfig eftConfig)) = destinationCurrency eftConfig"
  using validateConfig_fst [of eftConfig] by auto

section \<open>Evaluating the six-segment and the two-segment example\<close>

lemma cents_1250: "toString rt (mathRound (roundToDouble 1250)) = ''1250''"
  using centsText_example [of rt] by (simp add: centsText_def)

lemma validateSegment_wide:
  "validateSegment exampleRuntime wideSegment (w, seen) = Inr (Suc w, seen)"
  by (simp add: validateSegment_def wideSegment_def exampleSegment_def exampleRuntime_def
      digitsBetween_def isDigit_def)

lemma validateTransactions_wide:
  "validateTransactions exampleRuntime [wideTransaction] = Inr 6"
  by (simp add: validateTransactions_def validateTransaction_def wideTransaction_def
      validateSegment_wide)

lemma formatLines_wide:
  "snd (formatLines exampleRuntime wideGenerator) = Inr wideLines"
  by (simp add: formatLines_def validateCPA005_def getConfiguration_def getTransactions_def
      wideGenerator_def validateConfig_example validateTransactions_wide
      wideLines_def exampleConfigValidated_def)

lemma toString_1000: "toString rt (Fin 1000) = ''1000''"
  by (simp add: toString_def natToString_eval)

lemma length_segmentText_wide:
  "length (segmentText exampleRuntime eftConfig n i d wideSegment) = 241"
  by (simp add: segmentText_def wideSegment_def exampleSegment_def toString_1000
      cents_1250 length_padStart length_padEnd length_sliceTo
      toJulianDate_def julian_example)

lemma length_recordPrefix_example:
  "n < 10 ^ 9 \<Longrightarrow> length (recordPrefix exampleConfigValidated ''C'' n) = 24"
  by (rule length_recordPrefix) (simp_all add: exampleConfigValidated_def exampleConfig_def)

lemma length_wide_record: "length (wideLines ! 1) = 1470"
  by (simp add: wideLines_def encodeLines_def Let_def encodeTransactions_def
      transactionStep_outputLines wideTransaction_def segmentLoop_step segmentLoop_done
      segmentStep_outputLines segmentStep_recordText segmentStep_recordCount
      initialEncoder_def length_segmentText_wide length_recordPrefix_example nth_append
      length_padEnd)

lemma validateTransactions_pair:
  "validateTransactions exampleRuntime [pairTransaction] = Inr 0"
  by (simp add: validateTransactions_def validateTransaction_def pairTransaction_def
      validateSegment_example)

lemma formatLines_pair:
  "snd (formatLines exampleRuntime pairGenerator) = Inr pairLines"
  by (simp add: formatLines_def validateCPA005_def getConfiguration_def getTransactions_def
      pairGenerator_def validateConfig_example validateTransactions_pair
      pairLines_def exampleConfigValidated_def)

lemma transactionChecked_example:
  "transactionChecked exampleTransaction" "transactionChecked pairTransaction"
  by (simp_all add: transactionChecked_def exampleTransaction_def pairTransaction_def
      segmentChecked_def exampleSegment_def digitsBetween_def isDigit_def)

section \<open>The trailer\<close>

lemma last_encodeLines:
  assumes "list_all transactionChecked txs"
  shows "last (encodeLines rt eftConfig txs) =
     ''Z'' @
     padStart 9 CHR ''0'' (natToString (length (encodeLines rt eftConfig txs))) @
     padEnd 10 CHR '' '' (originatorId eftConfig) @
     sliceLast 4 (padStart 4 CHR ''0'' (fileCreationNumber eftConfig)) @
     padStart 14 CHR ''0'' (centsText rt (runningSum (Fin 0) (segmentsOfType ''D'' txs))) @
     padStart 8 CHR ''0'' (natToString (recordsOfType ''D'' txs)) @
     padStart 14 CHR ''0'' (centsText rt (runningSum (Fin 0) (segmentsOfType ''C'' txs))) @
     padStart 8 CHR ''0'' (natToString (recordsOfType ''C'' txs)) @
     padEnd 1396 CHR '' '' ''''"
proof -
  have "last (encodeLines rt eftConfig txs) =
        formatTrailer rt eftConfig (encodeTransactions rt eftConfig txs)"
    by (simp add: encodeLines_def Let_def)
  then show ?thesis
    using assms
    by (simp add: formatTrailer_def encodeTransactions_totals encodeLines_count centsText_def)
qed

lemma roundToDouble_eval:
  "roundToDouble (25 / 2) = Fin (25 / 2)" "roundToDouble 25 = Fin 25"
  "roundToDouble 1250 = Fin 1250" "roundToDouble 2500 = Fin 2500"
  by (rule roundToDouble_25_2 roundToDouble_25 roundToDouble_1250 roundToDouble_2500)+

lemma centsText_25: "centsText rt (Fin 25) = ''2500''"
  by (simp add: centsText_def roundToDouble_2500 toString_def natToString_eval
      floor_rat_numeral_divide)

lemma pair_amount_field: "take 14 (drop 46 (last pairLines)) = ''00000000002500''"
proof -
  have c: "list_all transactionChecked [pairTransaction]"
    by (simp add: transactionChecked_example)
  have "take 14 (drop 46 (last pairLines)) = padStart 14 CHR ''0'' ''2500''"
    unfolding pairLines_def last_encodeLines [OF c]
    by (simp add: length_padStart length_padEnd length_sliceLast encodeLines_count
      encodeTransactions_recordCount segmentsOfType_def recordsOfType_def physicalRecords_def
      pairTransaction_def runningSum_def exampleSegment_def roundToDouble_eval
      centsText_zero centsText_25 natToString_eval exampleConfigValidated_def exampleConfig_def)
  then show ?thesis
    by (simp add: padStart_def replicate_numeral)
qed

lemma pair_count_field: "take 8 (drop 60 (last pairLines)) = ''00000001''"
proof -
  have c: "list_all transactionChecked [pairTransaction]"
    by (simp add: transactionChecked_example)
  have "take 8 (drop 60 (last pairLines)) = padStart 8 CHR ''0'' ''1''"
    unfolding pairLines_def last_encodeLines [OF c]
    by (simp add: length_padStart length_padEnd length_sliceLast encodeLines_count
      encodeTransactions_recordCount segmentsOfType_def recordsOfType_def physicalRecords_def
      pairTransaction_def runningSum_def exampleSegment_def roundToDouble_eval
      centsText_zero centsText_25 natToString_eval exampleConfigValidated_def exampleConfig_def)
  then show ?thesis
    by (simp add: padStart_def replicate_numeral)
qed

section \<open>Amounts, and transactions without segments\<close>

lemma literal_max: "literal (9999999999 / 100) = Fin (6710886399328911 / 67108864)"
  by code_simp

lemma literal_limit: "literal 100000000 = Fin 100000000"
  by code_simp

lemma times100_max: "times100 (Fin (6710886399328911 / 67108864)) = Fin 9999999999"
  by code_simp

lemma centsText_max: "centsText rt (literal (9999999999 / 100)) = ''9999999999''"
proof -
  have "centsText rt (literal (9999999999 / 100)) = toString rt (mathRound (Fin 9999999999))"
    by (simp only: centsText_def literal_max times100_max)
  then show ?thesis
    by (simp add: toString_def natToString_eval floor_rat_numeral_divide)
qed

lemma validateSegment_amount:
  "leZero (amount segment) \<Longrightarrow> validateSegment rt segment st = Inl AmountNotPositive"
  "\<not> leZero (amount segment) \<Longrightarrow> geHundredMillion (amount segment) \<Longrightarrow>
     validateSegment rt segment st = Inl AmountTooLarge"
  by (simp_all add: validateSegment_def Let_def split: prod.splits)

lemma validateTransactions_bad_amount:
  assumes "leZero (amount segment) \<or> geHundredMillion (amount segment)"
    and "segment \<in> set (segments transaction)" and "transaction \<in> set eftTransactions"
  shows "\<exists>e. validateTransactions rt eftTransactions = Inl e"
proof (cases "validateTransactions rt eftTransactions")
  case (Inl e)
  then show ?thesis by simp
next
  case (Inr w)
  then have "list_all transactionChecked eftTransactions"
    by (rule validateTransactions_Inr)
  with assms(2,3) have "segmentChecked segment"
    by (auto simp: list_all_iff transactionChecked_def)
  with assms(1) show ?thesis
    by (simp add: segmentChecked_def)
qed

lemma validateTransactionLoop_append:
  "validateTransactionLoop rt (xs @ ys) st =
     (case validateTransactionLoop rt xs st of
        Inl e \<Rightarrow> Inl e
      | Inr st' \<Rightarrow> validateTransactionLoop rt ys st')"
  by (induction xs arbitrary: st) (auto split: sum.splits)

lemma validateSegment_bump:
  "validateSegment rt segment (apfst Suc st) =
   map_sum id (apfst Suc) (validateSegment rt segment st)"
  by (cases st) (simp add: validateSegment_def Let_def split: option.splits)

lemma validateSegments_bump:
  "validateSegments rt segs (apfst Suc st) =
   map_sum id (apfst Suc) (validateSegments rt segs st)"
  by (induction segs arbitrary: st) (auto simp: validateSegment_bump split: sum.splits)

lemma validateTransaction_bump:
  "validateTransaction rt transaction (apfst Suc st) =
   map_sum id (apfst Suc) (validateTransaction rt transaction st)"
proof -
  obtain w seen where st: "st = (w, seen)" by (cases st)
  have b: "\<And>n. (Suc n, seen) = apfst Suc (n, seen)" by simp
  show ?thesis
    unfolding st
    by (simp add: validateTransaction_def Let_def) (simp only: b validateSegments_bump, simp)
qed

lemma validateTransactionLoop_bump:
  "validateTransactionLoop rt txs (apfst Suc st) =
   map_sum id (apfst Suc) (validateTransactionLoop rt txs st)"
  by (induction txs arbitrary: st) (auto simp: validateTransaction_bump split: sum.splits)

lemma validateTransaction_no_segments:
  "segments transaction = [] \<Longrightarrow>
   validateTransaction rt transaction st =
     (if recordType transaction \<in> set [''C'', ''D''] then Inr (apfst Suc st)
      else Inl UnsupportedRecordType)"
  by (cases st) (simp add: validateTransaction_def)

lemma validateTransactionLoop_skip:
  assumes "segments transaction = []"
    and "validateTransactionLoop rt (before @ transaction # after) st = Inr st'"
  shows "\<exists>st''. validateTransactionLoop rt (before @ after) st = Inr st'' \<and> st' = apfst Suc st''"
proof -
  from assms(2) obtain s1 s2 where
    1: "validateTransactionLoop rt before st = Inr s1" and
    2: "validateTransaction rt transaction s1 = Inr s2" and
    3: "validateTransactionLoop rt after s2 = Inr st'"
    by (auto simp: validateTransactionLoop_append split: sum.splits)
  from 2 assms(1) have "s2 = apfst Suc s1"
    by (simp add: validateTransaction_no_segments split: if_splits)
  with 3 have "map_sum id (apfst Suc) (validateTransactionLoop rt after s1) = Inr st'"
    by (simp add: validateTransactionLoop_bump)
  then obtain st'' where
    4: "validateTransactionLoop rt after s1 = Inr st''" and "st' = apfst Suc st''"
    by (cases "validateTransactionLoop rt after s1") auto
  with 1 show ?thesis
    by (simp add: validateTransactionLoop_append)
qed

lemma validateTransactions_skip:
  assumes "segments transaction = []"
    and "validateTransactions rt (before @ transaction # after) = Inr warningCount"
  shows "if before @ after = [] then warningCount = 1
         else validateTransactions rt (before @ after) = Inr (warningCount - 1) \<and>
              0 < warningCount"
proof (cases "before @ after = []")
  case True
  with assms show ?thesis
    by (auto simp: validateTransactions_def validateTransaction_no_segments
        split: if_splits sum.splits)
next
  case False
  from assms(2) obtain st' where
    1: "validateTransactionLoop rt (before @ transaction # after) (0, {}) = Inr st'"
    and w: "warningCount = fst st'" and len: "\<not> 999999999 < length (before @ transaction # after)"
    by (auto simp: validateTransactions_def split: if_splits sum.splits prod.splits)
  from validateTransactionLoop_skip [OF assms(1) 1] obtain st'' where
    2: "validateTransactionLoop rt (before @ after) (0, {}) = Inr st''" and "st' = apfst Suc st''"
    by blast
  with w have "warningCount = Suc (fst st'')" by (cases st'') simp
  with 2 len False show ?thesis
    by (cases st'') (auto simp: validateTransactions_def)
qed

lemma transactionStep_no_segments:
  "segments transaction = [] \<Longrightarrow>
   transactionStep rt eftConfig st transaction = st\<lparr>recordText := []\<rparr>"
  by (simp add: transactionStep_def segmentLoop_Nil)

lemma transactionStep_recordText_irrelevant:
  "transactionStep rt eftConfig (st\<lparr>recordText := x\<rparr>) transaction =
   transactionStep rt eftConfig st transaction"
  by (simp add: transactionStep_def)

lemma foldl_transactionStep_recordText_irrelevant:
  "txs \<noteq> [] \<Longrightarrow>
   foldl (transactionStep rt eftConfig) (st\<lparr>recordText := x\<rparr>) txs =
   foldl (transactionStep rt eftConfig) st txs"
  by (cases txs) (simp_all add: transactionStep_recordText_irrelevant)

lemma formatTrailer_recordText_irrelevant:
  "formatTrailer rt eftConfig (st\<lparr>recordText := x\<rparr>) = formatTrailer rt eftConfig st"
  by (simp add: formatTrailer_def)

lemma encodeLines_skip:
  assumes "segments transaction = []"
  shows "encodeLines rt eftConfig (before @ transaction # after) =
         encodeLines rt eftConfig (before @ after)"
proof (cases "after = []")
  case True
  then show ?thesis
    by (simp add: encodeLines_def encodeTransactions_def Let_def
        transactionStep_no_segments [OF assms] formatTrailer_recordText_irrelevant)
next
  case False
  then show ?thesis
    by (simp add: encodeLines_def encodeTransactions_def Let_def
        transactionStep_no_segments [OF assms] foldl_transactionStep_recordText_irrelevant)
qed

lemma segmentText_amount_field:
  "take 10 (drop (length (toString rt (cpaCode segment)))
              (segmentText rt eftConfig n i d segment)) =
   take 10 (padStart 10 CHR ''0'' (centsText rt (amount segment)))"
  by (simp add: segmentText_def Let_def centsText_def length_padStart)

section \<open>The detail records as a function of the input\<close>

lemma undatedBefore_Suc:
  "i < length segs \<Longrightarrow>
   undatedBefore segs (Suc i) =
   undatedBefore segs i + (case paymentDate (segs ! i) of None \<Rightarrow> 1 | Some d \<Rightarrow> 0)"
  by (simp add: undatedBefore_def take_Suc_conv_app_nth split: option.splits)

lemma recordBody_Suc:
  "lo \<le> i \<Longrightarrow>
   recordBody rt eftConfig n taken segs lo (Suc i) =
   recordBody rt eftConfig n taken segs lo i @
   segmentText rt eftConfig n i (segmentDate rt taken segs i) (segs ! i)"
  by (simp add: recordBody_def)

lemma recordBody_single:
  "recordBody rt eftConfig n taken segs i (Suc i) =
   segmentText rt eftConfig n i (segmentDate rt taken segs i) (segs ! i)"
  by (simp add: recordBody_def)

lemma dateRead_segmentDate:
  "datesTaken s = taken + undatedBefore segs i \<Longrightarrow>
   dateRead rt s (segs ! i) = segmentDate rt taken segs i"
  by (simp add: dateRead_def segmentDate_def split: option.splits)

lemma multiple_of_six_between:
  assumes "6 * k < i" and "i \<le> 6 * k + 6" and "i mod 6 = (0::nat)"
  shows "i = 6 * k + 6"
proof -
  from assms(3) obtain m where m: "i = 6 * m" by (auto simp: mod_eq_0_iff_dvd)
  with assms(1,2) have "k < m" and "m \<le> k + 1" by simp_all
  then have "m = k + 1" by simp
  with m show ?thesis by simp
qed

lemma not_multiple_of_six: "i mod 6 \<noteq> (0::nat) \<Longrightarrow> i \<noteq> 6 * k + 6"
  by auto

lemma segmentStep_recordInv:
  assumes i: "i < length (segments transaction)"
    and inv: "recordInv rt eftConfig transaction st0 i s"
  shows "recordInv rt eftConfig transaction st0 (Suc i)
           (segmentStep rt eftConfig transaction i s)"
proof -
  let ?segs = "segments transaction"
  let ?s' = "segmentStep rt eftConfig transaction i s"
  let ?rec = "detailRecord rt eftConfig transaction (recordCount st0) (datesTaken st0)"
  from inv have taken: "datesTaken s = datesTaken st0 + undatedBefore ?segs i"
    by (simp add: recordInv_def)
  then have date: "dateRead rt s (?segs ! i) = segmentDate rt (datesTaken st0) ?segs i"
    by (rule dateRead_segmentDate)
  from taken have taken': "datesTaken ?s' = datesTaken st0 + undatedBefore ?segs (Suc i)"
    by (simp add: segmentStep_datesTaken undatedBefore_Suc [OF i] split: option.splits)
  show ?thesis
  proof (cases "i = 0")
    case True
    with inv have "outputLines s = outputLines st0" and "recordCount s = recordCount st0"
      by (simp_all add: recordInv_def)
    with True date have
      "6 * 0 < Suc i \<and> Suc i \<le> 6 * 0 + 6 \<and>
       outputLines ?s' = outputLines st0 @ map ?rec [0..<0] \<and>
       recordCount ?s' = recordCount st0 + 0 + 1 \<and>
       recordText ?s' =
         recordPrefix eftConfig (recordType transaction) (recordCount st0 + 0 + 1) @
         recordBody rt eftConfig (recordCount st0 + 0 + 1) (datesTaken st0) ?segs (6 * 0) (Suc i)"
      by (simp add: segmentStep_outputLines segmentStep_recordCount segmentStep_recordText
          recordBody_single)
    then have "\<exists>k. 6 * k < Suc i \<and> Suc i \<le> 6 * k + 6 \<and>
       outputLines ?s' = outputLines st0 @ map ?rec [0..<k] \<and>
       recordCount ?s' = recordCount st0 + k + 1 \<and>
       recordText ?s' =
         recordPrefix eftConfig (recordType transaction) (recordCount st0 + k + 1) @
         recordBody rt eftConfig (recordCount st0 + k + 1) (datesTaken st0) ?segs (6 * k) (Suc i)"
      by (rule exI)
    with taken' show ?thesis
      by (simp add: recordInv_def)
  next
    case False
    with inv obtain k where k: "6 * k < i" "i \<le> 6 * k + 6"
      and out: "outputLines s = outputLines st0 @ map ?rec [0..<k]"
      and rc: "recordCount s = recordCount st0 + k + 1"
      and body: "recordText s =
                recordPrefix eftConfig (recordType transaction) (recordCount st0 + k + 1) @
                recordBody rt eftConfig (recordCount st0 + k + 1) (datesTaken st0) ?segs (6 * k) i"
      by (auto simp: recordInv_def)
    have "\<exists>k. 6 * k < Suc i \<and> Suc i \<le> 6 * k + 6 \<and>
       outputLines ?s' = outputLines st0 @ map ?rec [0..<k] \<and>
       recordCount ?s' = recordCount st0 + k + 1 \<and>
       recordText ?s' =
         recordPrefix eftConfig (recordType transaction) (recordCount st0 + k + 1) @
         recordBody rt eftConfig (recordCount st0 + k + 1) (datesTaken st0) ?segs (6 * k) (Suc i)"
    proof (cases "i mod 6 = 0")
      case True
      with k have full: "i = 6 * k + 6" by (intro multiple_of_six_between)
      with i have "min (6 * k + 6) (length ?segs) = i" by simp
      with body have "recordText s = ?rec k"
        by (simp add: detailRecord_def)
      with out True False have "outputLines ?s' = outputLines st0 @ map ?rec [0..<Suc k]"
        by (simp add: segmentStep_outputLines)
      moreover from rc True have "recordCount ?s' = recordCount st0 + Suc k + 1"
        by (simp add: segmentStep_recordCount)
      moreover from full have e: "6 * Suc k = i" by simp
      from rc True date have "recordText ?s' =
         recordPrefix eftConfig (recordType transaction) (recordCount st0 + Suc k + 1) @
         recordBody rt eftConfig (recordCount st0 + Suc k + 1) (datesTaken st0) ?segs
           (6 * Suc k) (Suc i)"
        by (subst e) (simp add: segmentStep_recordText recordBody_single)
      moreover from full have "6 * Suc k < Suc i" and "Suc i \<le> 6 * Suc k + 6" by simp_all
      ultimately show ?thesis by blast
    next
      case False
      with k have less: "i < 6 * k + 6"
        using not_multiple_of_six [OF False, of k] by simp
      from out False have "outputLines ?s' = outputLines st0 @ map ?rec [0..<k]"
        by (simp add: segmentStep_outputLines)
      moreover from rc False have "recordCount ?s' = recordCount st0 + k + 1"
        by (simp add: segmentStep_recordCount)
      moreover from k have "6 * k \<le> i" by simp
      with body rc False date have "recordText ?s' =
         recordPrefix eftConfig (recordType transaction) (recordCount st0 + k + 1) @
         recordBody rt eftConfig (recordCount st0 + k + 1) (datesTaken st0) ?segs (6 * k) (Suc i)"
        by (simp add: segmentStep_recordText recordBody_Suc)
      moreover from k less have "6 * k < Suc i" and "Suc i \<le> 6 * k + 6" by simp_all
      ultimately show ?thesis by blast
    qed
    with taken' show ?thesis
      by (simp add: recordInv_def)
  qed
qed

lemma segmentLoop_recordInv:
  "recordInv rt eftConfig transaction st (length (segments transaction))
     (segmentLoop rt eftConfig transaction 0 st)"
proof -
  have "recordInv rt eftConfig transaction st (max 0 (length (segments transaction)))
          (segmentLoop rt eftConfig transaction 0 st)"
    by (rule segmentLoop_invariant)
       (simp_all add: segmentStep_recordInv, simp add: recordInv_def undatedBefore_def)
  then show ?thesis by simp
qed

lemma physicalRecords_between:
  assumes "6 * k < length (segments transaction)" and "length (segments transaction) \<le> 6 * k + 6"
  shows "physicalRecords transaction = k + 1"
  unfolding physicalRecords_def
  using assms by (intro div_nat_eqI) simp_all

lemma recordInv_recordText_irrelevant:
  "recordInv rt eftConfig transaction (st\<lparr>recordText := x\<rparr>) i s =
   recordInv rt eftConfig transaction st i s"
  by (simp add: recordInv_def)

lemma transactionStep_datesTaken:
  "datesTaken (transactionStep rt eftConfig st transaction) = datesTaken st + undated transaction"
  using segmentLoop_recordInv [of rt eftConfig transaction "st\<lparr>recordText := []\<rparr>"]
  by (simp add: transactionStep_def Let_def recordInv_def undated_def)

lemma transactionStep_detailRecords:
  "outputLines (transactionStep rt eftConfig st transaction) =
   outputLines st @ detailRecords rt eftConfig transaction (recordCount st) (datesTaken st)"
proof (cases "segments transaction = []")
  case True
  then show ?thesis
    by (simp add: transactionStep_outputLines detailRecords_def physicalRecords_def)
next
  case False
  let ?s = "segmentLoop rt eftConfig transaction 0 (st\<lparr>recordText := []\<rparr>)"
  let ?rec = "detailRecord rt eftConfig transaction (recordCount st) (datesTaken st)"
  from False segmentLoop_recordInv [of rt eftConfig transaction "st\<lparr>recordText := []\<rparr>"]
  obtain k where k: "6 * k < length (segments transaction)"
      "length (segments transaction) \<le> 6 * k + 6"
    and out: "outputLines ?s = outputLines st @ map ?rec [0..<k]"
    and body: "recordText ?s =
                recordPrefix eftConfig (recordType transaction) (recordCount st + k + 1) @
                recordBody rt eftConfig (recordCount st + k + 1) (datesTaken st)
                  (segments transaction) (6 * k) (length (segments transaction))"
    by (auto simp: recordInv_def)
  from k have m: "physicalRecords transaction = k + 1"
    by (rule physicalRecords_between)
  from k have "min (6 * k + 6) (length (segments transaction)) = length (segments transaction)"
    by simp
  with body have "recordText ?s = ?rec k"
    by (simp add: detailRecord_def)
  with out False have "outputLines (transactionStep rt eftConfig st transaction) =
      outputLines st @ map ?rec [0..<k] @ [padEnd 1464 CHR '' '' (?rec k)]"
    by (simp add: transactionStep_outputLines)
  also have "map ?rec [0..<k] @ [padEnd 1464 CHR '' '' (?rec k)] =
      detailRecords rt eftConfig transaction (recordCount st) (datesTaken st)"
    by (simp add: detailRecords_def m)
  finally show ?thesis .
qed

lemma foldl_transactionStep_detailLines:
  "outputLines (foldl (transactionStep rt eftConfig) st txs) =
   outputLines st @ detailLines rt eftConfig (recordCount st) (datesTaken st) txs"
  by (induction txs arbitrary: st)
     (simp_all add: transactionStep_detailRecords transactionStep_recordCount
        segmentLoop_recordCount transactionStep_datesTaken)

lemma foldl_transactionStep_datesTaken:
  "datesTaken (foldl (transactionStep rt eftConfig) st txs) =
   datesTaken st + sum_list (map undated txs)"
  by (induction txs arbitrary: st) (simp_all add: transactionStep_datesTaken)

lemma length_detailRecords:
  "length (detailRecords rt eftConfig transaction n taken) = physicalRecords transaction"
  by (simp add: detailRecords_def)

lemma encodeLines_around:
  fixes before after transaction rt eftConfig
  defines "st \<equiv> encodeTransactions rt eftConfig before"
  shows "encodeLines rt eftConfig (before @ transaction # after) =
     outputLines st @
     detailRecords rt eftConfig transaction (recordCount st) (datesTaken st) @
     detailLines rt eftConfig (recordCount st + physicalRecords transaction)
       (datesTaken st + undated transaction) after @
     [formatTrailer rt eftConfig (encodeTransactions rt eftConfig (before @ transaction # after))]"
  by (simp add: encodeLines_def Let_def encodeTransactions_def st_def
      foldl_transactionStep_detailLines transactionStep_detailRecords
      transactionStep_recordCount segmentLoop_recordCount transactionStep_datesTaken)

lemma length_outputLines_encodeTransactions:
  "length (outputLines (encodeTransactions rt eftConfig txs)) =
   recordCount (encodeTransactions rt eftConfig txs)"
  unfolding encodeTransactions_def
  by (rule foldl_transactionStep_count) (simp add: initialEncoder_def)

section \<open>Sequence numbers\<close>

lemma digitValue_digitChar: "d < 10 \<Longrightarrow> digitValue (digitChar d) = d"
proof -
  assume "d < 10"
  then have "d = 0 \<or> d = 1 \<or> d = 2 \<or> d = 3 \<or> d = 4 \<or> d = 5 \<or> d = 6 \<or> d = 7 \<or> d = 8 \<or> d = 9"
    by arith
  then show ?thesis
    by (elim disjE) (simp_all add: digitValue_def digitChar_def)
qed

lemma stringToNat_snoc: "stringToNat (s @ [c]) = 10 * stringToNat s + digitValue c"
  by (simp add: stringToNat_def)

lemma stringToNat_natToString: "stringToNat (natToString n) = n"
proof (induction n rule: natToString.induct)
  case (1 n)
  show ?case
  proof (cases "n < 10")
    case True
    then show ?thesis
      by (simp add: natToString_digit stringToNat_def digitValue_digitChar)
  next
    case False
    with "1.IH" show ?thesis
      by (simp add: natToString_step stringToNat_snoc digitValue_digitChar)
  qed
qed

lemma foldl_zeros:
  "foldl (\<lambda>a c. 10 * a + digitValue c) 0 (replicate k CHR ''0'') = 0"
  by (induction k) (simp_all add: digitValue_def)

lemma stringToNat_padStart: "stringToNat (padStart k CHR ''0'' s) = stringToNat s"
  by (simp add: padStart_def stringToNat_def foldl_zeros)

lemma length_padStart_9: "n < 10 ^ 9 \<Longrightarrow> length (padStart 9 CHR ''0'' (natToString n)) = 9"
  using length_natToString [of 9 n] by (simp add: length_padStart)

lemma sequenceNumber_field:
  assumes "length letter = 1" and "n < 10 ^ 9"
  shows "sequenceNumber (letter @ padStart 9 CHR ''0'' (natToString n) @ rest) = n"
  using assms length_padStart_9 [OF assms(2)]
  by (simp add: sequenceNumber_def stringToNat_padStart stringToNat_natToString)

lemma sequenceNumber_recordPrefix:
  assumes "length letter = 1" and "n < 10 ^ 9"
  shows "sequenceNumber (recordPrefix eftConfig letter n @ rest) = n"
  using sequenceNumber_field [OF assms] by (simp add: recordPrefix_def)

lemma sequenceNumber_detailRecords:
  assumes "length (recordType transaction) = 1" and "k < physicalRecords transaction"
    and "n + k + 1 < 10 ^ 9"
  shows "sequenceNumber (detailRecords rt eftConfig transaction n taken ! k) = n + k + 1"
  using assms(2) sequenceNumber_recordPrefix [OF assms(1,3)]
  by (simp add: detailRecords_def detailRecord_def padEnd_def)

lemma length_detailLines:
  "length (detailLines rt eftConfig n taken txs) = sum_list (map physicalRecords txs)"
  by (induction txs arbitrary: n taken) (simp_all add: length_detailRecords)

lemma sequenceNumber_detailLines:
  assumes "list_all (\<lambda>t. length (recordType t) = 1) txs"
    and "k < length (detailLines rt eftConfig n taken txs)"
    and "n + length (detailLines rt eftConfig n taken txs) < 10 ^ 9"
  shows "sequenceNumber (detailLines rt eftConfig n taken txs ! k) = n + k + 1"
  using assms
proof (induction txs arbitrary: n taken k)
  case Nil
  then show ?case by simp
next
  case (Cons t txs)
  show ?case
  proof (cases "k < physicalRecords t")
    case True
    with Cons.prems show ?thesis
      by (simp add: nth_append length_detailRecords sequenceNumber_detailRecords)
  next
    case False
    let ?k = "k - physicalRecords t"
    from False Cons.prems have "sequenceNumber
        (detailLines rt eftConfig (n + physicalRecords t) (taken + undated t) txs ! ?k) =
        n + physicalRecords t + ?k + 1"
      by (intro Cons.IH) (simp_all add: length_detailRecords)
    with False show ?thesis
      by (simp add: nth_append length_detailRecords)
  qed
qed

lemma sequenceNumber_formatHeader: "sequenceNumber (formatHeader rt eftConfig) = 1"
proof -
  have "sequenceNumber (''A'' @ padStart 9 CHR ''0'' (natToString 1) @ rest) = 1" for rest
    by (rule sequenceNumber_field) simp_all
  then show ?thesis
    by (simp add: formatHeader_def Let_def natToString_eval)
qed

lemma sequenceNumber_formatTrailer:
  "recordCount st + 1 < 10 ^ 9 \<Longrightarrow>
   sequenceNumber (formatTrailer rt eftConfig st) = recordCount st + 1"
  unfolding formatTrailer_def by (rule sequenceNumber_field) simp_all

lemma encodeLines_detailLines:
  "encodeLines rt eftConfig txs =
     formatHeader rt eftConfig #
     detailLines rt eftConfig 1 (case fileCreationDate eftConfig of None \<Rightarrow> 1 | Some d \<Rightarrow> 0) txs @
     [formatTrailer rt eftConfig (encodeTransactions rt eftConfig txs)]"
  by (simp add: encodeLines_def Let_def encodeTransactions_def foldl_transactionStep_detailLines
      initialEncoder_def)

lemma sequenceNumber_encodeLines:
  assumes "list_all (\<lambda>t. length (recordType t) = 1) txs"
    and "k < length (encodeLines rt eftConfig txs)"
    and "length (encodeLines rt eftConfig txs) < 10 ^ 9"
  shows "sequenceNumber (encodeLines rt eftConfig txs ! k) = k + 1"
proof -
  let ?taken = "case fileCreationDate eftConfig of None \<Rightarrow> 1 | Some d \<Rightarrow> 0"
  let ?d = "detailLines rt eftConfig 1 ?taken txs"
  let ?st = "encodeTransactions rt eftConfig txs"
  have len: "length (encodeLines rt eftConfig txs) = length ?d + 2"
    by (simp add: encodeLines_detailLines)
  with encodeLines_count [of rt eftConfig txs] have rc: "recordCount ?st = length ?d + 1"
    by simp
  consider "k = 0" | "0 < k" "k < length ?d + 1" | "k = length ?d + 1"
    using assms(2) len by linarith
  then show ?thesis
  proof cases
    case 1
    then show ?thesis
      by (simp add: encodeLines_detailLines sequenceNumber_formatHeader)
  next
    case 2
    then obtain j where j: "k = Suc j" and jl: "j < length ?d" by (cases k) auto
    from assms(3) len have "1 + length ?d < 10 ^ 9" by simp
    from sequenceNumber_detailLines [OF assms(1) jl this] j jl show ?thesis
      by (simp add: encodeLines_detailLines nth_append)
  next
    case 3
    from assms(3) len rc have "recordCount ?st + 1 < 10 ^ 9" by simp
    from sequenceNumber_formatTrailer [OF this, of rt eftConfig] 3 rc show ?thesis
      by (simp add: encodeLines_detailLines nth_append)
  qed
qed

lemma transactionChecked_letter:
  "list_all transactionChecked txs \<Longrightarrow> list_all (\<lambda>t. length (recordType t) = 1) txs"
  by (induction txs) (auto simp: transactionChecked_def)


lemma detailRecords_seven:
  assumes "length (segments transaction) = 7"
  shows "detailRecords rt eftConfig transaction n taken =
     [recordPrefix eftConfig (recordType transaction) (n + 1) @
        recordBody rt eftConfig (n + 1) taken (segments transaction) 0 6,
      padEnd 1464 CHR '' ''
        (recordPrefix eftConfig (recordType transaction) (n + 2) @
         recordBody rt eftConfig (n + 2) taken (segments transaction) 6 7)]"
proof -
  have m: "physicalRecords transaction = 2"
    by (simp add: physicalRecords_def assms)
  have u: "[0..<2] = [0, 1]" by (simp add: upt_conv_Cons)
  show ?thesis
    by (simp add: detailRecords_def m u detailRecord_def assms)
qed


lemma validateTransactions_seven:
  "validateTransactions exampleRuntime [sevenTransaction] = Inr 1"
  by (simp add: validateTransactions_def validateTransaction_def sevenTransaction_def
      validateSegment_example)

lemma formatLines_seven:
  "snd (formatLines exampleRuntime sevenGenerator) = Inr sevenLines"
  by (simp add: formatLines_def validateCPA005_def getConfiguration_def getTransactions_def
      sevenGenerator_def validateConfig_example validateTransactions_seven
      sevenLines_def exampleConfigValidated_def)

section \<open>Cross-reference numbers\<close>

lemma card_diff_le_length: "card (set xs - A) \<le> length xs"
proof -
  have "card (set xs - A) \<le> card (set xs)"
    by (rule card_mono) auto
  also have "\<dots> \<le> length xs" by (rule card_length)
  finally show ?thesis .
qed

lemma diff_seen: "x \<in> seen \<Longrightarrow> set (x # xs) - seen = set xs - insert x seen"
  by auto

lemma diff_unseen:
  "x \<notin> seen \<Longrightarrow> set (x # xs) - seen = insert x (set xs - insert x seen)"
  by auto

lemma card_diff_unseen:
  "x \<notin> seen \<Longrightarrow> card (set (x # xs) - seen) = Suc (card (set xs - insert x seen))"
proof -
  assume x: "x \<notin> seen"
  have "card (insert x (set xs - insert x seen)) = Suc (card (set xs - insert x seen))"
    by (rule card_insert_disjoint) auto
  then show ?thesis
    by (simp only: diff_unseen [OF x])
qed

lemma repeatsFrom_count:
  "repeatsFrom seen xs = length xs - card (set xs - seen)"
proof (induction xs arbitrary: seen)
  case Nil
  show ?case by simp
next
  case (Cons x xs)
  have ih: "repeatsFrom (insert x seen) xs = length xs - card (set xs - insert x seen)"
    by (rule Cons.IH)
  have le: "card (set xs - insert x seen) \<le> length xs"
    by (rule card_diff_le_length)
  show ?case
  proof (cases "x \<in> seen")
    case True
    have "repeatsFrom seen (x # xs) = 1 + (length xs - card (set xs - insert x seen))"
      using True by (simp only: repeatsFrom.simps ih if_True)
    also have "\<dots> = length (x # xs) - card (set xs - insert x seen)"
      using le by simp
    also have "\<dots> = length (x # xs) - card (set (x # xs) - seen)"
      by (simp only: diff_seen [OF True])
    finally show ?thesis .
  next
    case False
    have "repeatsFrom seen (x # xs) = 0 + (length xs - card (set xs - insert x seen))"
      using False by (simp only: repeatsFrom.simps ih if_False)
    also have "\<dots> = length (x # xs) - Suc (card (set xs - insert x seen))"
      by simp
    also have "\<dots> = length (x # xs) - card (set (x # xs) - seen)"
      by (simp only: card_diff_unseen [OF False])
    finally show ?thesis .
  qed
qed

lemma repeatsFrom_append:
  "repeatsFrom seen (xs @ ys) = repeatsFrom seen xs + repeatsFrom (seen \<union> set xs) ys"
  by (induction xs arbitrary: seen) simp_all

lemma repeats_repeatsFrom: "repeats xs = repeatsFrom {} xs"
  by (simp add: repeats_def repeatsFrom_count)

lemma validateSegment_references:
  "validateSegment rt segment (w + a, seen) =
   map_sum id (\<lambda>p. (fst p + a + repeatsFrom seen (suppliedReferences [segment]),
                     seen \<union> set (suppliedReferences [segment])))
     (validateSegment rt (withoutCrossReference segment) (w, seen'))"
  by (simp add: validateSegment_def withoutCrossReference_def suppliedReferences_def
      List.map_filter_simps Let_def split: option.splits)


lemma suppliedReferences_Cons:
  "suppliedReferences (segment # segs) = suppliedReferences [segment] @ suppliedReferences segs"
  by (simp add: suppliedReferences_def List.map_filter_simps split: option.splits)

lemma validateSegments_references:
  "validateSegments rt segs (w + a, seen) =
   map_sum id (\<lambda>p. (fst p + a + repeatsFrom seen (suppliedReferences segs),
                     seen \<union> set (suppliedReferences segs)))
     (validateSegments rt (map withoutCrossReference segs) (w, seen'))"
proof (induction segs arbitrary: w a seen seen')
  case Nil
  show ?case by (simp add: suppliedReferences_def List.map_filter_simps)
next
  case (Cons segment segs)
  let ?r = "suppliedReferences [segment]"
  show ?case
  proof (cases "validateSegment rt (withoutCrossReference segment) (w, seen')")
    case (Inl e)
    then show ?thesis
      by (simp add: validateSegment_references [of rt segment w a seen seen'])
  next
    case (Inr p)
    obtain w1 s1 where p: "p = (w1, s1)" by (cases p)
    have step: "validateSegments rt (segment # segs) (w + a, seen) =
          validateSegments rt segs (w1 + (a + repeatsFrom seen ?r), seen \<union> set ?r)"
      by (simp add: validateSegment_references [of rt segment w a seen seen'] Inr p
          add.assoc)
    have ih: "\<dots> = map_sum id
        (\<lambda>p. (fst p + (a + repeatsFrom seen ?r) + repeatsFrom (seen \<union> set ?r) (suppliedReferences segs),
              seen \<union> set ?r \<union> set (suppliedReferences segs)))
        (validateSegments rt (map withoutCrossReference segs) (w1, s1))"
      by (rule Cons.IH)
    show ?thesis
      unfolding step ih
      by (simp add: Inr p suppliedReferences_Cons [of segment segs] repeatsFrom_append
          add.assoc Un_assoc id_def)
  qed
qed

lemma validateTransaction_references:
  "validateTransaction rt transaction (w + a, seen) =
   map_sum id (\<lambda>p. (fst p + a + repeatsFrom seen (suppliedReferences (segments transaction)),
                     seen \<union> set (suppliedReferences (segments transaction))))
     (validateTransaction rt (withoutCrossReferences transaction) (w, seen'))"
proof -
  have s: "Suc (w + a) = Suc w + a" "Suc (Suc (w + a)) = Suc (Suc w) + a" by simp_all
  show ?thesis
    by (simp add: validateTransaction_def withoutCrossReferences_def Let_def)
       (simp only: s validateSegments_references [of rt _ _ a seen seen'],
        simp add: suppliedReferences_def List.map_filter_simps)
qed

lemma validateTransactionLoop_references:
  "validateTransactionLoop rt txs (w + a, seen) =
   map_sum id (\<lambda>p. (fst p + a + repeatsFrom seen (crossReferences txs),
                     seen \<union> set (crossReferences txs)))
     (validateTransactionLoop rt (map withoutCrossReferences txs) (w, seen'))"
proof (induction txs arbitrary: w a seen seen')
  case Nil
  show ?case by (simp add: crossReferences_def)
next
  case (Cons transaction txs)
  let ?r = "suppliedReferences (segments transaction)"
  show ?case
  proof (cases "validateTransaction rt (withoutCrossReferences transaction) (w, seen')")
    case (Inl e)
    then show ?thesis
      by (simp add: validateTransaction_references [of rt transaction w a seen seen'])
  next
    case (Inr p)
    obtain w1 s1 where p: "p = (w1, s1)" by (cases p)
    have step: "validateTransactionLoop rt (transaction # txs) (w + a, seen) =
          validateTransactionLoop rt txs (w1 + (a + repeatsFrom seen ?r), seen \<union> set ?r)"
      by (simp add: validateTransaction_references [of rt transaction w a seen seen'] Inr p
          add.assoc)
    have ih: "\<dots> = map_sum id
        (\<lambda>p. (fst p + (a + repeatsFrom seen ?r) + repeatsFrom (seen \<union> set ?r) (crossReferences txs),
              seen \<union> set ?r \<union> set (crossReferences txs)))
        (validateTransactionLoop rt (map withoutCrossReferences txs) (w1, s1))"
      by (rule Cons.IH)
    show ?thesis
      unfolding step ih
      by (simp add: Inr p crossReferences_def repeatsFrom_append add.assoc Un_assoc id_def)
  qed
qed

lemma validateTransactions_references:
  "validateTransactions rt txs =
   map_sum id (\<lambda>w. w + repeats (crossReferences txs))
     (validateTransactions rt (map withoutCrossReferences txs))"
proof -
  have l: "validateTransactionLoop rt txs (w, {}) =
     map_sum id (\<lambda>p. (fst p + repeats (crossReferences txs), set (crossReferences txs)))
       (validateTransactionLoop rt (map withoutCrossReferences txs) (w, {}))" for w
    using validateTransactionLoop_references [of rt txs w 0 "{}" "{}"]
    by (simp add: repeats_repeatsFrom)
  show ?thesis
    by (simp add: validateTransactions_def l repeats_def crossReferences_def split: sum.splits)
qed

lemma field_after:
  fixes X B :: string
  assumes "length X = 19" and "length B = 71"
  shows "take 19 (drop (length (concat ps @ X @ B) - 90) (concat ps @ X @ B)) = X"
  using assms by simp

lemma crossReferenceField_segmentText:
  "crossReferenceField (segmentText rt eftConfig m j d segment) =
   sliceTo 19 (padEnd 19 CHR '' ''
     (case crossReferenceNumber segment of
        None \<Rightarrow> ''f'' @ fileCreationNumber eftConfig @ ''r'' @ natToString m @ ''s'' @
                natToString (j + 1)
      | Some x \<Rightarrow> x))"
  (is "_ = ?X")
proof -
  let ?B = "padEnd 9 CHR '' '' '''' @ padEnd 12 CHR '' '' '''' @ padEnd 15 CHR '' '' '''' @
            padEnd 22 CHR '' '' '''' @ padEnd 2 CHR '' '' '''' @ padStart 11 CHR ''0'' ''''"
  let ?ps = "[toString rt (cpaCode segment),
         padStart 10 CHR ''0'' (toString rt (mathRound (times100 (amount segment)))),
         toJulianDate rt d,
         padStart 4 CHR ''0'' (bankInstitutionNumber segment),
         padStart 5 CHR ''0'' (bankTransitNumber segment),
         padEnd 12 CHR '' '' (bankAccountNumber segment),
         (case itemTraceNumber segment of
            None \<Rightarrow> padStart 22 CHR ''0'' ''''
          | Some t \<Rightarrow> t @ padStart 4 CHR ''0'' (natToString (j + 1))),
         padStart 3 CHR ''0'' '''',
         sliceTo 15 (padEnd 15 CHR '' ''
           (case originatorShortName eftConfig of
               None \<Rightarrow> originatorLongName eftConfig
             | Some n \<Rightarrow> n)),
         sliceTo 30 (padEnd 30 CHR '' '' (payeeName segment)),
         sliceTo 30 (padEnd 30 CHR '' '' (originatorLongName eftConfig)),
         padEnd 10 CHR '' '' (sliceTo 5 (originatorId eftConfig))]"
  have e: "segmentText rt eftConfig m j d segment = concat ?ps @ ?X @ ?B"
    by (simp add: segmentText_def Let_def)
  have x: "length ?X = 19"
    by (simp add: length_sliceTo length_padEnd)
  have b: "length ?B = 71"
    by (simp add: length_padEnd length_padStart)
  show ?thesis
    unfolding crossReferenceField_def e by (rule field_after [OF x b])
qed

section \<open>The line that holds a segment\<close>

lemma repeats_distinct: "(repeats xs = 0) = distinct xs"
proof
  assume "repeats xs = 0"
  then have "length xs \<le> card (set xs)" by (simp add: repeats_def)
  with card_length [of xs] have "card (set xs) = length xs" by simp
  then show "distinct xs" by (rule card_distinct)
next
  assume "distinct xs"
  then show "repeats xs = 0" by (simp add: repeats_def distinct_card)
qed

lemma recordBody_split:
  assumes "lo \<le> j" and "j < hi"
  shows "recordBody rt eftConfig n taken segs lo hi =
     recordBody rt eftConfig n taken segs lo j @
     segmentText rt eftConfig n j (segmentDate rt taken segs j) (segs ! j) @
     recordBody rt eftConfig n taken segs (j + 1) hi"
proof -
  from assms have "[lo..<hi] = [lo..<j] @ j # [Suc j..<hi]"
    by (metis le_add_diff_inverse less_imp_le_nat upt_add_eq_append upt_conv_Cons)
  then show ?thesis by (simp add: recordBody_def)
qed

lemma record_of_segment:
  assumes "j < length (segments transaction)"
  shows "j div 6 < physicalRecords transaction"
    and "6 * (j div 6) \<le> j"
    and "j < min (6 * (j div 6) + 6) (length (segments transaction))"
proof -
  from assms have "j + 6 \<le> length (segments transaction) + 5" by simp
  then have "(j + 6) div 6 \<le> (length (segments transaction) + 5) div 6"
    by (rule div_le_mono)
  then show "j div 6 < physicalRecords transaction"
    by (simp add: physicalRecords_def)
  show "6 * (j div 6) \<le> j" by simp
  have "j mod 6 < 6" by simp
  then have "j < 6 * (j div 6) + 6"
    using div_mult_mod_eq [of j 6] by linarith
  with assms show "j < min (6 * (j div 6) + 6) (length (segments transaction))" by simp
qed

lemma nth_detailRecords:
  assumes "k < physicalRecords transaction"
  shows "detailRecords rt eftConfig transaction n taken ! k =
     (if k + 1 = physicalRecords transaction
      then padEnd 1464 CHR '' '' (detailRecord rt eftConfig transaction n taken k)
      else detailRecord rt eftConfig transaction n taken k)"
  using assms by (simp add: detailRecords_def)

lemma encodeLines_segment:
  fixes before after transaction rt eftConfig j
  assumes j: "j < length (segments transaction)"
  defines "st \<equiv> encodeTransactions rt eftConfig before"
  defines "k \<equiv> j div 6"
  defines "m \<equiv> recordCount st + k + 1"
  defines "whole \<equiv>
     recordPrefix eftConfig (recordType transaction) m @
     recordBody rt eftConfig m (datesTaken st) (segments transaction) (6 * k) j @
     segmentText rt eftConfig m j (segmentDate rt (datesTaken st) (segments transaction) j)
       (segments transaction ! j) @
     recordBody rt eftConfig m (datesTaken st) (segments transaction) (j + 1)
       (min (6 * k + 6) (length (segments transaction)))"
  shows "encodeLines rt eftConfig (before @ transaction # after) ! (m - 1) =
     (if k + 1 = physicalRecords transaction then padEnd 1464 CHR '' '' whole else whole)"
proof -
  note r = record_of_segment [OF j, folded k_def]
  have len: "length (outputLines st) = recordCount st"
    by (simp add: st_def length_outputLines_encodeTransactions)
  have d: "detailRecord rt eftConfig transaction (recordCount st) (datesTaken st) k = whole"
    unfolding detailRecord_def whole_def m_def
    by (simp add: recordBody_split [OF r(2) r(3)])
  have "encodeLines rt eftConfig (before @ transaction # after) ! (m - 1) =
        detailRecords rt eftConfig transaction (recordCount st) (datesTaken st) ! k"
    unfolding m_def
    by (subst encodeLines_around)
       (simp add: st_def [symmetric] nth_append len length_detailRecords r(1))
  then show ?thesis
    by (simp add: nth_detailRecords [OF r(1)] d)
qed

lemma validateSegment_reference:
  "validateSegment exampleRuntime referenceSegment (w, seen) =
     Inr (if ''INV-1'' \<in> seen then w + 1 else w, insert ''INV-1'' seen)"
  by (simp add: validateSegment_def referenceSegment_def exampleSegment_def exampleRuntime_def
      digitsBetween_def isDigit_def)

lemma validateTransactions_reference:
  "validateTransactions exampleRuntime [referenceTransaction] = Inr 1"
  by (simp add: validateTransactions_def validateTransaction_def referenceTransaction_def
      validateSegment_example validateSegment_reference)

lemma formatLines_reference:
  "snd (formatLines exampleRuntime referenceGenerator) = Inr referenceLines"
  by (simp add: formatLines_def validateCPA005_def getConfiguration_def getTransactions_def
      referenceGenerator_def validateConfig_example validateTransactions_reference
      referenceLines_def exampleConfigValidated_def)

lemma withoutCrossReferences_reference:
  "withoutCrossReferences referenceTransaction =
     \<lparr>recordType = ''C'', segments = [exampleSegment, exampleSegment, exampleSegment]\<rparr>"
  by (simp add: withoutCrossReferences_def withoutCrossReference_def referenceTransaction_def
      referenceSegment_def exampleSegment_def)

lemma validateTransactions_reference_without:
  "validateTransactions exampleRuntime [withoutCrossReferences referenceTransaction] = Inr 0"
  by (simp add: withoutCrossReferences_reference validateTransactions_def
      validateTransaction_def validateSegment_example)

lemma repeats_reference: "repeats (crossReferences [referenceTransaction]) = 1"
  by (simp add: repeats_def crossReferences_def suppliedReferences_def List.map_filter_simps
      referenceTransaction_def referenceSegment_def exampleSegment_def)

lemma length_segmentText_reference:
  "length (segmentText exampleRuntime eftConfig n i d exampleSegment) = 240"
  "length (segmentText exampleRuntime eftConfig n i d referenceSegment) = 240"
proof -
  have j: "\<forall>d. length (toShortModernJulianDate exampleRuntime d) = 5"
    by (simp add: julian_example)
  have c: "segmentChecked exampleSegment"
    using transactionChecked_example(1) by (simp add: transactionChecked_def exampleTransaction_def)
  show "length (segmentText exampleRuntime eftConfig n i d exampleSegment) = 240"
    by (rule length_segmentText [OF segmentFits_example c j])
  have f: "segmentFits exampleRuntime i referenceSegment"
    using segmentFits_example [of i] by (simp add: segmentFits_def referenceSegment_def)
  have c': "segmentChecked referenceSegment"
    using c by (simp add: segmentChecked_def referenceSegment_def)
  show "length (segmentText exampleRuntime eftConfig n i d referenceSegment) = 240"
    by (rule length_segmentText [OF f c' j])
qed

lemma field_in_line:
  assumes "off = length P + length B + 150" and "length txt = 240"
  shows "take 19 (drop off (padEnd 1464 c (P @ B @ txt @ R))) = crossReferenceField txt"
  using assms by (auto simp: padEnd_def crossReferenceField_def)

section \<open>The clock\<close>

text \<open>
  Replacing the clock of the runtime changes nothing that does not read it: validation,
  the text of a segment for a given date, the trailer, and the whole encoding when no
  date is left out.
\<close>

lemma clock_toString: "toString (rt\<lparr>newDate := clock\<rparr>) x = toString rt x"
  by (simp add: toString_def)

lemma clock_toJulianDate: "toJulianDate (rt\<lparr>newDate := clock\<rparr>) d = toJulianDate rt d"
  by (simp add: toJulianDate_def)

lemma clock_segmentText:
  "segmentText (rt\<lparr>newDate := clock\<rparr>) eftConfig n i d segment =
   segmentText rt eftConfig n i d segment"
  by (simp add: segmentText_def clock_toString clock_toJulianDate)

lemma clock_segmentStep:
  assumes "paymentDate (segments transaction ! i) \<noteq> None"
  shows "segmentStep (rt\<lparr>newDate := clock\<rparr>) eftConfig transaction i st =
         segmentStep rt eftConfig transaction i st"
  using assms by (auto simp: segmentStep_def clock_segmentText Let_def)

lemma clock_segmentLoop:
  assumes "\<forall>s\<in>set (segments transaction). paymentDate s \<noteq> None"
  shows "segmentLoop (rt\<lparr>newDate := clock\<rparr>) eftConfig transaction i st =
         segmentLoop rt eftConfig transaction i st"
  using assms
proof (induction rt eftConfig transaction i st rule: segmentLoop.induct)
  case (1 rt eftConfig transaction segmentIndex st)
  show ?case
  proof (cases "segmentIndex < length (segments transaction)")
    case True
    with "1.prems" have "paymentDate (segments transaction ! segmentIndex) \<noteq> None"
      by simp
    then have s: "segmentStep (rt\<lparr>newDate := clock\<rparr>) eftConfig transaction segmentIndex st =
        segmentStep rt eftConfig transaction segmentIndex st"
      by (rule clock_segmentStep)
    have "segmentLoop (rt\<lparr>newDate := clock\<rparr>) eftConfig transaction (segmentIndex + 1)
            (segmentStep rt eftConfig transaction segmentIndex st) =
          segmentLoop rt eftConfig transaction (segmentIndex + 1)
            (segmentStep rt eftConfig transaction segmentIndex st)"
      using True "1.prems" by (rule "1.IH")
    with True s show ?thesis
      by (simp add: segmentLoop_step)
  next
    case False
    then show ?thesis by (simp add: segmentLoop_done)
  qed
qed

lemma clock_transactionStep:
  assumes "\<forall>s\<in>set (segments transaction). paymentDate s \<noteq> None"
  shows "transactionStep (rt\<lparr>newDate := clock\<rparr>) eftConfig st transaction =
         transactionStep rt eftConfig st transaction"
  by (simp add: transactionStep_def clock_segmentLoop [OF assms])

lemma clock_foldl:
  assumes "\<forall>t\<in>set txs. \<forall>s\<in>set (segments t). paymentDate s \<noteq> None"
  shows "foldl (transactionStep (rt\<lparr>newDate := clock\<rparr>) eftConfig) st txs =
         foldl (transactionStep rt eftConfig) st txs"
  using assms by (induction txs arbitrary: st) (simp_all add: clock_transactionStep)

lemma clock_formatHeader:
  assumes "fileCreationDate eftConfig \<noteq> None"
  shows "formatHeader (rt\<lparr>newDate := clock\<rparr>) eftConfig = formatHeader rt eftConfig"
  using assms by (auto simp: formatHeader_def clock_toJulianDate)

lemma clock_formatTrailer:
  "formatTrailer (rt\<lparr>newDate := clock\<rparr>) eftConfig st = formatTrailer rt eftConfig st"
  by (simp add: formatTrailer_def clock_toString)

lemma clock_encodeLines:
  assumes "fileCreationDate eftConfig \<noteq> None"
    and "\<forall>t\<in>set txs. \<forall>s\<in>set (segments t). paymentDate s \<noteq> None"
  shows "encodeLines (rt\<lparr>newDate := clock\<rparr>) eftConfig txs = encodeLines rt eftConfig txs"
  by (simp add: encodeLines_def encodeTransactions_def initialEncoder_def
      clock_formatHeader [OF assms(1)] clock_foldl [OF assms(2)] clock_formatTrailer)

lemma clock_validateSegment:
  "validateSegment (rt\<lparr>newDate := clock\<rparr>) segment st = validateSegment rt segment st"
  by (simp add: validateSegment_def)

lemma clock_validateSegments:
  "validateSegments (rt\<lparr>newDate := clock\<rparr>) segs st = validateSegments rt segs st"
  by (induction segs arbitrary: st) (simp_all add: clock_validateSegment split: sum.splits)

lemma clock_validateTransaction:
  "validateTransaction (rt\<lparr>newDate := clock\<rparr>) transaction st =
   validateTransaction rt transaction st"
  by (simp add: validateTransaction_def clock_validateSegments Let_def split: prod.splits)

lemma clock_validateTransactionLoop:
  "validateTransactionLoop (rt\<lparr>newDate := clock\<rparr>) txs st = validateTransactionLoop rt txs st"
  by (induction txs arbitrary: st) (simp_all add: clock_validateTransaction split: sum.splits)

lemma clock_validateTransactions:
  "validateTransactions (rt\<lparr>newDate := clock\<rparr>) txs = validateTransactions rt txs"
  by (simp add: validateTransactions_def clock_validateTransactionLoop)

lemma clock_validateCPA005:
  "validateCPA005 (rt\<lparr>newDate := clock\<rparr>) eftGenerator = validateCPA005 rt eftGenerator"
  unfolding validateCPA005_def clock_validateTransactions by (rule refl)

lemma clock_formatToCPA005:
  assumes "fileCreationDate (configuration eftGenerator) \<noteq> None"
    and "\<forall>t\<in>set (transactions eftGenerator). \<forall>s\<in>set (segments t). paymentDate s \<noteq> None"
  shows "formatToCPA005 (rt\<lparr>newDate := clock\<rparr>) eftGenerator = formatToCPA005 rt eftGenerator"
proof -
  have "fileCreationDate (fst (validateConfig (configuration eftGenerator))) \<noteq> None"
    using assms(1) by (simp add: validateConfig_keeps)
  note e0 = clock_encodeLines [OF this assms(2), where rt = rt and clock = clock]
  have e: "encodeLines (rt\<lparr>newDate := clock\<rparr>) c (transactions eftGenerator) =
           encodeLines rt c (transactions eftGenerator)"
    if "validateConfig (configuration eftGenerator) = (c, r)" for c r
    using e0 that by simp
  have "formatLines (rt\<lparr>newDate := clock\<rparr>) eftGenerator = formatLines rt eftGenerator"
    unfolding formatLines_def clock_validateCPA005
    by (auto simp: validateCPA005_def getConfiguration_def getTransactions_def e
        split: prod.splits sum.splits)
  then show ?thesis by (simp add: formatToCPA005_def)
qed

lemma header_date_field:
  fixes rt eftConfig
  assumes "length (originatorId eftConfig) \<le> 10"
  defines "date \<equiv> (case fileCreationDate eftConfig of None \<Rightarrow> newDate rt 0 | Some d \<Rightarrow> d)"
  shows "take (length (toJulianDate rt date)) (drop 24 (formatHeader rt eftConfig)) =
         toJulianDate rt date"
proof -
  have "length (''A'' @ padStart 9 CHR ''0'' ''1'' @ padEnd 10 CHR '' '' (originatorId eftConfig) @
          sliceLast 4 (padStart 4 CHR ''0'' (fileCreationNumber eftConfig))) = 24"
    using assms(1) by (simp add: length_padStart length_padEnd length_sliceLast)
  then show ?thesis
    by (simp add: formatHeader_def Let_def date_def)
qed

lemma segment_date_field:
  "take (length (toJulianDate rt d))
     (drop (length (toString rt (cpaCode segment)) +
            length (padStart 10 CHR ''0'' (centsText rt (amount segment))))
        (segmentText rt eftConfig n i d segment)) =
   toJulianDate rt d"
  by (simp add: segmentText_def Let_def centsText_def)

lemma validateConfig_again:
  "fst (validateConfig (fst (validateConfig eftConfig))) = fst (validateConfig eftConfig)"
  "(\<exists>w. snd (validateConfig (fst (validateConfig eftConfig))) = Inr w) =
   (\<exists>w. snd (validateConfig eftConfig) = Inr w)"
  "snd (validateConfig eftConfig) = Inl e \<Longrightarrow>
   snd (validateConfig (fst (validateConfig eftConfig))) = Inl e"
  by (auto simp: validateConfig_def Let_def split: option.splits if_splits)

lemma snd_formatToCPA005:
  "snd (formatToCPA005 rt eftGenerator) =
     (case snd (validateConfig (configuration eftGenerator)) of
        Inl e \<Rightarrow> Inl e
      | Inr w \<Rightarrow>
          (case validateTransactions rt (transactions eftGenerator) of
             Inl e \<Rightarrow> Inl e
           | Inr w' \<Rightarrow>
               Inr (join [CHR 0x0D, CHR 0x0A]
                      (encodeLines rt (fst (validateConfig (configuration eftGenerator)))
                         (transactions eftGenerator)))))"
  by (auto simp: formatToCPA005_def formatLines_def validateCPA005_def getConfiguration_def
      getTransactions_def split: prod.splits sum.splits)

lemma fst_formatToCPA005:
  "fst (formatToCPA005 rt eftGenerator) =
   eftGenerator\<lparr>configuration := fst (validateConfig (configuration eftGenerator))\<rparr>"
  by (auto simp: formatToCPA005_def formatLines_def validateCPA005_def getConfiguration_def
      split: prod.splits sum.splits)

lemma formatToCPA005_again:
  "snd (formatToCPA005 rt (fst (formatToCPA005 rt eftGenerator))) =
   snd (formatToCPA005 rt eftGenerator)"
proof (cases "snd (validateConfig (configuration eftGenerator))")
  case (Inl e)
  from validateConfig_again(3) [OF this] Inl show ?thesis
    by (simp add: snd_formatToCPA005 fst_formatToCPA005)
next
  case (Inr w)
  with validateConfig_again(2) [of "configuration eftGenerator"]
  obtain w' where
    "snd (validateConfig (fst (validateConfig (configuration eftGenerator)))) = Inr w'"
    by auto
  with Inr show ?thesis
    by (simp add: snd_formatToCPA005 fst_formatToCPA005 validateConfig_again(1)
        split: sum.splits)
qed

lemma datesTaken_encodeTransactions:
  "datesTaken (encodeTransactions rt eftConfig txs) =
   (case fileCreationDate eftConfig of None \<Rightarrow> 1 | Some d \<Rightarrow> 0) + sum_list (map undated txs)"
  by (simp add: encodeTransactions_def foldl_transactionStep_datesTaken initialEncoder_def)

lemma hd_encodeLines: "encodeLines rt eftConfig txs ! 0 = formatHeader rt eftConfig"
  by (simp add: encodeLines_detailLines)

section \<open>The undated example\<close>

lemma validateConfig_undated:
  "validateConfig undatedConfig =
     (undatedConfig\<lparr>originatorShortName := Some ''Test Co''\<rparr>, Inr 1)"
  by (simp add: validateConfig_def undatedConfig_def exampleConfig_def digitsBetween_def
      isDigit_def)

lemma validateSegment_undated:
  "validateSegment tickingRuntime exampleSegment (w, seen) = Inr (w, seen)"
  "validateSegment tickingRuntime undatedSegment (w, seen) = Inr (w, seen)"
  by (simp_all add: validateSegment_def undatedSegment_def exampleSegment_def
      tickingRuntime_def exampleRuntime_def digitsBetween_def isDigit_def)

lemma validateTransactions_undated:
  "validateTransactions tickingRuntime [undatedTransaction] = Inr 0"
  by (simp add: validateTransactions_def validateTransaction_def undatedTransaction_def
      validateSegment_undated)

lemma formatLines_undated:
  "snd (formatLines tickingRuntime undatedGenerator) = Inr undatedLines"
  by (simp add: formatLines_def validateCPA005_def getConfiguration_def getTransactions_def
      undatedGenerator_def validateConfig_undated validateTransactions_undated
      undatedLines_def)

lemma length_segmentText_undated:
  "length (segmentText tickingRuntime eftConfig n i d exampleSegment) = 240"
  "length (segmentText tickingRuntime eftConfig n i d undatedSegment) = 240"
proof -
  have j: "\<forall>d. length (toShortModernJulianDate exampleRuntime d) = 5"
    by (simp add: julian_example)
  have c: "segmentChecked exampleSegment"
    using transactionChecked_example(1) by (simp add: transactionChecked_def exampleTransaction_def)
  show "length (segmentText tickingRuntime eftConfig n i d exampleSegment) = 240"
    unfolding tickingRuntime_def clock_segmentText
    by (rule length_segmentText [OF segmentFits_example c j])
  have f: "segmentFits exampleRuntime i undatedSegment"
    using segmentFits_example [of i] by (simp add: segmentFits_def undatedSegment_def)
  have c': "segmentChecked undatedSegment"
    using c by (simp add: segmentChecked_def undatedSegment_def)
  show "length (segmentText tickingRuntime eftConfig n i d undatedSegment) = 240"
    unfolding tickingRuntime_def clock_segmentText
    by (rule length_segmentText [OF f c' j])
qed

lemma part_of_line:
  assumes "off = length P + length B + skip" and "skip + n \<le> length txt"
  shows "take n (drop off (padEnd 1464 c (P @ B @ txt @ R))) = take n (drop skip txt)"
  using assms by (simp add: padEnd_def)

section \<open>The claims\<close>

subsection \<open>Validation of the configuration\<close>

text \<open>
  C4, as stated, fails: a configuration whose \<open>destinationCurrency\<close> is the empty
  string has a currency that is defined and is neither \<open>"CAD"\<close> nor \<open>"USD"\<close>, and
  \<open>validateConfig\<close> returns a warning count for it.
\<close>

theorem validateConfig_accepts_blank_currency:
  "destinationCurrency blankCurrencyConfig = Some '''' \<and> '''' \<noteq> ''CAD'' \<and> '''' \<noteq> ''USD'' \<and>
   snd (validateConfig blankCurrencyConfig) = Inr 1"
  by (simp add: blankCurrencyConfig_def validateConfig_def exampleConfig_def digitsBetween_def
      isDigit_def)

text \<open>
  C4, amended: \<open>validateConfig\<close> throws if and only if the originator id is longer than
  10 characters, or the file creation number is not 1 to 4 digits, or the destination
  data centre is defined and is not 0 to 5 digits, or the destination currency is defined
  and is none of \<open>""\<close>, \<open>"CAD"\<close> and \<open>"USD"\<close>; otherwise it returns a warning count.
\<close>

theorem validateConfig_throws_iff:
  "((\<exists>e. snd (validateConfig eftConfig) = Inl e) \<longleftrightarrow>
      10 < length (originatorId eftConfig) \<or>
      \<not> digitsBetween 1 4 (fileCreationNumber eftConfig) \<or>
      (\<exists>c. destinationDataCentre eftConfig = Some c \<and> \<not> digitsBetween 0 5 c) \<or>
      (\<exists>c. destinationCurrency eftConfig = Some c \<and> c \<notin> set ['''', ''CAD'', ''USD''])) \<and>
   ((\<exists>e. snd (validateConfig eftConfig) = Inl e) \<or>
    (\<exists>warningCount. snd (validateConfig eftConfig) = Inr warningCount))"
proof
  show "(\<exists>e. snd (validateConfig eftConfig) = Inl e) \<longleftrightarrow>
      10 < length (originatorId eftConfig) \<or>
      \<not> digitsBetween 1 4 (fileCreationNumber eftConfig) \<or>
      (\<exists>c. destinationDataCentre eftConfig = Some c \<and> \<not> digitsBetween 0 5 c) \<or>
      (\<exists>c. destinationCurrency eftConfig = Some c \<and> c \<notin> set ['''', ''CAD'', ''USD''])"
    by (auto simp: validateConfig_def Let_def digitsBetween_empty
        split: option.splits if_splits)
  show "(\<exists>e. snd (validateConfig eftConfig) = Inl e) \<or>
    (\<exists>warningCount. snd (validateConfig eftConfig) = Inr warningCount)"
    by (cases "snd (validateConfig eftConfig)") auto
qed

theorem validateConfig_throws_iff_witness:
  "(\<exists>e. snd (validateConfig longIdConfig) = Inl e) \<and>
   (\<exists>e. snd (validateConfig (exampleConfig\<lparr>destinationCurrency := Some ''EUR''\<rparr>)) = Inl e) \<and>
   \<not> (\<exists>e. snd (validateConfig blankCurrencyConfig) = Inl e)"
  using validateConfig_throws_iff [of longIdConfig]
    validateConfig_throws_iff [of "exampleConfig\<lparr>destinationCurrency := Some ''EUR''\<rparr>"]
    validateConfig_throws_iff [of blankCurrencyConfig]
  by (simp add: longIdConfig_def blankCurrencyConfig_def exampleConfig_def digitsBetween_def
      isDigit_def)

text \<open>
  C9, as stated, fails: with an eleven-character originator id \<open>validateConfig\<close> throws
  before it looks at \<open>originatorShortName\<close>, which stays undefined.
\<close>

theorem validateConfig_throws_before_default:
  "originatorShortName longIdConfig = None \<and>
   snd (validateConfig longIdConfig) = Inl OriginatorIdTooLong \<and>
   originatorShortName (fst (validateConfig longIdConfig)) = None"
  by (simp add: longIdConfig_def validateConfig_def exampleConfig_def)

text \<open>
  C9, amended.  If \<open>originatorShortName\<close> is undefined and the checks of the originator
  id, the file creation number and the destination data centre pass, \<open>validateConfig\<close>
  sets it to \<open>originatorLongName\<close> and changes no other field, also when it then throws
  on the currency; and its outcome is that of the configuration with the short name
  already set, with one more warning.  If \<open>originatorShortName\<close> is undefined and one of
  those three checks throws, or if \<open>originatorShortName\<close> is defined, the configuration
  is left as it was.
\<close>

theorem validateConfig_short_name_default:
  "(originatorShortName eftConfig = None \<and>
    length (originatorId eftConfig) \<le> 10 \<and>
    digitsBetween 1 4 (fileCreationNumber eftConfig) \<and>
    digitsBetween 0 5 (case destinationDataCentre eftConfig of None \<Rightarrow> '''' | Some c \<Rightarrow> c) \<longrightarrow>
      fst (validateConfig eftConfig) =
        eftConfig\<lparr>originatorShortName := Some (originatorLongName eftConfig)\<rparr> \<and>
      snd (validateConfig eftConfig) =
        map_sum id Suc
          (snd (validateConfig
                  (eftConfig\<lparr>originatorShortName := Some (originatorLongName eftConfig)\<rparr>)))) \<and>
   (originatorShortName eftConfig = None \<and>
    \<not> (length (originatorId eftConfig) \<le> 10 \<and>
       digitsBetween 1 4 (fileCreationNumber eftConfig) \<and>
       digitsBetween 0 5 (case destinationDataCentre eftConfig of None \<Rightarrow> '''' | Some c \<Rightarrow> c)) \<longrightarrow>
      fst (validateConfig eftConfig) = eftConfig) \<and>
   (originatorShortName eftConfig \<noteq> None \<longrightarrow> fst (validateConfig eftConfig) = eftConfig)"
  by (auto simp: validateConfig_def Let_def split: option.splits if_splits)

theorem validateConfig_short_name_default_witness:
  "validateConfig exampleConfig =
     (exampleConfig\<lparr>originatorShortName := Some ''Test Co''\<rparr>, Inr 1) \<and>
   validateConfig (exampleConfig\<lparr>originatorShortName := Some ''Test Co''\<rparr>) =
     (exampleConfig\<lparr>originatorShortName := Some ''Test Co''\<rparr>, Inr 0) \<and>
   fst (validateConfig longIdConfig) = longIdConfig"
  using validateConfig_short_name_default [of exampleConfig]
    validateConfig_short_name_default [of "exampleConfig\<lparr>originatorShortName := Some ''Test Co''\<rparr>"]
    validateConfig_short_name_default [of longIdConfig]
  by (simp add: longIdConfig_def exampleConfig_def digitsBetween_def isDigit_def
      prod_eq_iff validateConfig_def)

subsection \<open>The trailer and the record count\<close>

text \<open>
  C8: when \<open>formatToCPA005\<close> produces lines, the last line is the trailer; the trailer
  is \<open>"Z"\<close> followed by the count field, which is the zero-padded decimal numeral of
  \<open>recordCount + 1\<close> for the final \<open>recordCount\<close>; and that number is the number of
  lines, the header and the trailer included.
\<close>

theorem trailer_last_and_counts_lines:
  assumes "snd (formatLines rt eftGenerator) = Inr lines"
  defines "eftConfig \<equiv> fst (validateConfig (configuration eftGenerator))"
  defines "st \<equiv> encodeTransactions rt eftConfig (transactions eftGenerator)"
  defines "countField \<equiv> padStart 9 CHR ''0'' (natToString (length lines))"
  shows "last lines = formatTrailer rt eftConfig st \<and>
         take (1 + length countField) (last lines) = ''Z'' @ countField \<and>
         length lines = recordCount st + 1"
proof -
  from assms(1) obtain w1 w2 where lines: "lines = encodeLines rt eftConfig (transactions eftGenerator)"
    unfolding eftConfig_def by (rule formatLines_Inr)
  have n: "length lines = recordCount st + 1"
    by (simp add: lines st_def encodeLines_count)
  have l: "last lines = formatTrailer rt eftConfig st"
    by (simp add: lines st_def encodeLines_def Let_def)
  have "take (1 + length countField) (formatTrailer rt eftConfig st) = ''Z'' @ countField"
    by (simp add: formatTrailer_def countField_def n)
  with n l show ?thesis by simp
qed

theorem trailer_last_and_counts_lines_witness:
  "snd (formatLines exampleRuntime exampleGenerator) = Inr exampleLines \<and>
   length exampleLines = 3 \<and>
   take 10 (last exampleLines) = ''Z000000003''"
proof -
  have f: "snd (formatLines exampleRuntime exampleGenerator) = Inr exampleLines"
    by (rule formatLines_example)
  have t: "transactions exampleGenerator = [exampleTransaction]"
    by (simp add: exampleGenerator_def)
  note w = trailer_last_and_counts_lines
             [OF f, unfolded validateConfig_exampleGenerator t recordCount_example]
  then show ?thesis using f
    by (elim conjE) (simp add: padStart_def natToString_eval replicate_numeral eval_nat_numeral)
qed

subsection \<open>The fixed record length\<close>

text \<open>
  C1, as stated, fails: six segments with the CPA code 1000 pass validation (an
  unknown code is a warning), and the detail record they fill is 1470 characters long.
\<close>

theorem wide_code_breaks_record_length:
  "snd (formatLines exampleRuntime wideGenerator) = Inr wideLines \<and>
   length (wideLines ! 1) = 1470"
  by (intro conjI formatLines_wide length_wide_record)

text \<open>
  C1, amended.  Let a configuration and a transaction list pass \<open>validateCPA005\<close>,
  and let moreover
  \<^item> the destination currency, when defined, not be the empty string;
  \<^item> the Julian date converter return five characters;
  \<^item> every segment's CPA code print as three characters, its amount in cents as at
    most ten, and its item trace number, when defined, fill 22 characters together with
    its position suffix;
  \<^item> the file have fewer than \<open>10^8\<close> lines, and both totals in cents print as at
    most 14 characters.

  Then every line \<open>formatToCPA005\<close> emits (header, detail records, trailer) is exactly
  1464 characters long.
\<close>

theorem lines_have_record_length:
  assumes "snd (formatLines rt eftGenerator) = Inr lines"
    and "destinationCurrency (configuration eftGenerator) \<noteq> Some ''''"
    and "\<forall>date. length (toShortModernJulianDate rt date) = 5"
    and "list_all (transactionFits rt) (transactions eftGenerator)"
    and "length lines < 10 ^ 8"
    and "length (centsText rt
           (runningSum (Fin 0) (segmentsOfType ''D'' (transactions eftGenerator)))) \<le> 14"
    and "length (centsText rt
           (runningSum (Fin 0) (segmentsOfType ''C'' (transactions eftGenerator)))) \<le> 14"
  shows "list_all (\<lambda>l. length l = 1464) lines"
proof -
  let ?cfg = "fst (validateConfig (configuration eftGenerator))"
  let ?txs = "transactions eftGenerator"
  let ?st = "encodeTransactions rt ?cfg ?txs"
  from assms(1) obtain w1 w2 where
    v1: "snd (validateConfig (configuration eftGenerator)) = Inr w1" and
    v2: "validateTransactions rt ?txs = Inr w2" and
    lines: "lines = encodeLines rt ?cfg ?txs"
    by (rule formatLines_Inr)
  from v1 have cfg: "configChecked ?cfg"
    by (rule validateConfig_Inr_fst)
  then have id: "length (originatorId ?cfg) \<le> 10" and fcn: "length (fileCreationNumber ?cfg) \<le> 4"
    by (simp_all add: configChecked_def digitsBetween_def)
  from v2 have txs: "list_all transactionChecked ?txs"
    by (rule validateTransactions_Inr)
  from assms(2) have cur: "destinationCurrency ?cfg \<noteq> Some ''''"
    by (simp add: validateConfig_keeps)
  have "lineInv 0 (initialEncoder rt ?cfg)"
    by (simp add: lineInv_def initialEncoder_def length_formatHeader [OF cfg cur assms(3)])
  with txs assms(4) have inv: "lineInv 0 ?st"
    unfolding encodeTransactions_def
    by (intro foldl_transactionStep_lineInv id fcn assms(3))
  from assms(5) have n: "recordCount ?st + 1 < 10 ^ 8"
    by (simp add: lines encodeLines_count)
  then have "recordCount ?st < 10 ^ 9" by simp
  with inv have details: "list_all (\<lambda>l. length l = 1464) (outputLines ?st)"
    by (simp add: lineInv_def)
  from n encodeTransactions_numbers [of rt ?cfg ?txs]
  have "totalNumberDebits ?st < 10 ^ 8" and "totalNumberCredits ?st < 10 ^ 8"
    by simp_all
  moreover from n have "recordCount ?st + 1 < 10 ^ 9" by simp
  ultimately have "length (formatTrailer rt ?cfg ?st) = 1464"
    using assms(6,7) txs
    by (intro length_formatTrailer id) (simp_all add: encodeTransactions_totals)
  with details show ?thesis
    by (simp add: lines encodeLines_def Let_def)
qed

theorem lines_have_record_length_witness:
  "snd (formatLines exampleRuntime exampleGenerator) = Inr exampleLines \<and>
   length exampleLines = 3 \<and>
   list_all (\<lambda>l. length l = 1464) exampleLines"
proof -
  have n: "length exampleLines = 3"
    by (simp add: exampleLines_def encodeLines_count recordCount_example)
  have "list_all (\<lambda>l. length l = 1464) exampleLines"
  proof (rule lines_have_record_length [OF formatLines_example])
    show "destinationCurrency (configuration exampleGenerator) \<noteq> Some ''''"
      by (simp add: exampleGenerator_def exampleConfig_def)
    show "\<forall>date. length (toShortModernJulianDate exampleRuntime date) = 5"
      by (simp add: julian_example)
    show "list_all (transactionFits exampleRuntime) (transactions exampleGenerator)"
      by (simp add: exampleGenerator_def transactionFits_def exampleTransaction_def
          segmentFits_example)
    show "length exampleLines < 10 ^ 8"
      by (simp add: n)
    show "length (centsText exampleRuntime
            (runningSum (Fin 0) (segmentsOfType ''D'' (transactions exampleGenerator)))) \<le> 14"
      by (simp add: exampleGenerator_def segmentsOfType_def exampleTransaction_def
          runningSum_def centsText_zero)
    show "length (centsText exampleRuntime
            (runningSum (Fin 0) (segmentsOfType ''C'' (transactions exampleGenerator)))) \<le> 14"
      by (simp add: exampleGenerator_def segmentsOfType_def exampleTransaction_def
          runningSum_def exampleSegment_def roundToDouble_25_2 centsText_example)
  qed
  with n formatLines_example show ?thesis by simp
qed

subsection \<open>The totals of the trailer\<close>

text \<open>
  C2 does not hold of the code.  For one credit transaction with two segments of 12.50
  each, the credit amount field of the trailer (its characters 47 to 60) is
  \<open>00000000002500\<close>, the sum over both segments, but the credit count field (its
  characters 61 to 68) is \<open>00000001\<close>, while two segments belong to credit transactions:
  \<open>segmentStep\<close> adds to the value totals at every segment and to the count totals only
  where it starts a physical record.
\<close>

theorem count_field_counts_records_not_segments:
  "snd (formatLines exampleRuntime pairGenerator) = Inr pairLines \<and>
   length (segmentsOfType ''C'' (transactions pairGenerator)) = 2 \<and>
   take 14 (drop 46 (last pairLines)) = ''00000000002500'' \<and>
   take 8 (drop 60 (last pairLines)) = ''00000001''"
  by (intro conjI formatLines_pair pair_amount_field pair_count_field)
     (simp add: segmentsOfType_def pairGenerator_def pairTransaction_def)

subsection \<open>The bounds on an amount\<close>

text \<open>
  C5: a segment whose amount is at most zero, or at least 100,000,000, makes
  \<open>validateSegment\<close> throw, and with it \<open>validateTransactions\<close> on every list
  that holds the segment; 100,000,000 itself is such an amount.  A segment whose amount
  is 99,999,999.99 passes both amount checks, passes \<open>validateSegment\<close> when its three
  bank numbers are well formed, and its amount field, the ten characters after the CPA
  code, is \<open>9999999999\<close>.
\<close>

theorem amount_limits:
  "(leZero (amount segment) \<or> geHundredMillion (amount segment) \<longrightarrow>
      (\<exists>e. validateSegment rt segment st = Inl e) \<and>
      (segment \<in> set (segments transaction) \<and> transaction \<in> set eftTransactions \<longrightarrow>
         (\<exists>e. validateTransactions rt eftTransactions = Inl e))) \<and>
   geHundredMillion (literal 100000000) \<and>
   (amount segment = literal (9999999999 / 100) \<longrightarrow>
      \<not> leZero (amount segment) \<and> \<not> geHundredMillion (amount segment) \<and>
      (digitsBetween 1 3 (bankInstitutionNumber segment) \<and>
       digitsBetween 1 5 (bankTransitNumber segment) \<and>
       digitsBetween 1 12 (bankAccountNumber segment) \<longrightarrow>
         (\<exists>st'. validateSegment rt segment st = Inr st')) \<and>
      take 10 (drop (length (toString rt (cpaCode segment)))
                 (segmentText rt eftConfig n i d segment)) = ''9999999999'')"
proof (intro conjI impI)
  assume "leZero (amount segment) \<or> geHundredMillion (amount segment)"
  then show "\<exists>e. validateSegment rt segment st = Inl e"
    using validateSegment_amount [of segment rt st] by auto
next
  assume "leZero (amount segment) \<or> geHundredMillion (amount segment)"
    and "segment \<in> set (segments transaction) \<and> transaction \<in> set eftTransactions"
  then show "\<exists>e. validateTransactions rt eftTransactions = Inl e"
    by (intro validateTransactions_bad_amount [of segment transaction]) simp_all
next
  show "geHundredMillion (literal 100000000)"
    by (simp add: literal_limit)
next
  assume a: "amount segment = literal (9999999999 / 100)"
  then show "\<not> leZero (amount segment)" and "\<not> geHundredMillion (amount segment)"
    by (simp_all add: literal_max)
  from a show "take 10 (drop (length (toString rt (cpaCode segment)))
                 (segmentText rt eftConfig n i d segment)) = ''9999999999''"
    by (simp add: segmentText_amount_field centsText_max padStart_full)
next
  assume a: "amount segment = literal (9999999999 / 100)"
    and "digitsBetween 1 3 (bankInstitutionNumber segment) \<and>
       digitsBetween 1 5 (bankTransitNumber segment) \<and>
       digitsBetween 1 12 (bankAccountNumber segment)"
  then show "\<exists>st'. validateSegment rt segment st = Inr st'"
    by (cases st) (simp add: validateSegment_def Let_def literal_max split: option.splits)
qed

theorem amount_limits_witness:
  "validateSegment exampleRuntime (exampleSegment\<lparr>amount := Fin 0\<rparr>) (0, {}) =
     Inl AmountNotPositive \<and>
   validateSegment exampleRuntime (exampleSegment\<lparr>amount := literal 100000000\<rparr>) (0, {}) =
     Inl AmountTooLarge \<and>
   (\<exists>e. validateTransactions exampleRuntime
          [\<lparr>recordType = ''C'',
            segments = [exampleSegment, exampleSegment\<lparr>amount := literal 100000000\<rparr>]\<rparr>] = Inl e) \<and>
   validateSegment exampleRuntime maxSegment (0, {}) = Inr (0, {}) \<and>
   take 10 (drop 3 (segmentText exampleRuntime exampleConfig 2 0 0 maxSegment)) = ''9999999999''"
proof -
  let ?big = "exampleSegment\<lparr>amount := literal 100000000\<rparr>"
  let ?tx = "\<lparr>recordType = ''C'', segments = [exampleSegment, ?big]\<rparr>"
  have big: "geHundredMillion (amount ?big)"
    by (simp add: literal_limit)
  from amount_limits [of ?big exampleRuntime "(0, {})" ?tx "[?tx]"] big
  have 1: "\<exists>e. validateTransactions exampleRuntime [?tx] = Inl e"
    by simp
  have m: "amount maxSegment = literal (9999999999 / 100)"
    by (simp add: maxSegment_def)
  from amount_limits [of maxSegment exampleRuntime "(0, {})" _ _ exampleConfig 2 0 0] m
  have 2: "take 10 (drop (length (toString exampleRuntime (cpaCode maxSegment)))
                 (segmentText exampleRuntime exampleConfig 2 0 0 maxSegment)) = ''9999999999''"
    by simp
  have 3: "length (toString exampleRuntime (cpaCode maxSegment)) = 3"
    by (simp add: maxSegment_def exampleSegment_def toString_450)
  have 4: "validateSegment exampleRuntime (exampleSegment\<lparr>amount := Fin 0\<rparr>) (0, {}) =
     Inl AmountNotPositive"
    by (simp add: validateSegment_amount)
  have 5: "validateSegment exampleRuntime ?big (0, {}) = Inl AmountTooLarge"
    by (simp add: validateSegment_amount literal_limit)
  have 6: "validateSegment exampleRuntime maxSegment (0, {}) = Inr (0, {})"
    by (simp add: validateSegment_def maxSegment_def exampleSegment_def exampleRuntime_def
        literal_max digitsBetween_def isDigit_def)
  from 1 2 3 4 5 6 show ?thesis by simp
qed

subsection \<open>A transaction without segments\<close>

text \<open>
  C7: let the transaction list hold a transaction whose segment list is empty, and let
  \<open>formatToCPA005\<close> produce lines.  Then the lines are those of the list without that
  transaction, which is valid too and formats to the same lines: the transaction
  contributes no detail record.  And the count \<open>validateTransactions\<close> returns is one
  more than for the list without the transaction; when the transaction is the only one,
  the count is 1.
\<close>

theorem transaction_without_segments:
  assumes "segments transaction = []"
    and "transactions eftGenerator = before @ transaction # after"
    and "snd (formatLines rt eftGenerator) = Inr lines"
  shows "lines = encodeLines rt (fst (validateConfig (configuration eftGenerator)))
                   (before @ after) \<and>
         snd (formatLines rt (eftGenerator\<lparr>transactions := before @ after\<rparr>)) = Inr lines \<and>
         (\<exists>warningCount.
            validateTransactions rt (before @ transaction # after) = Inr warningCount \<and>
            (if before @ after = [] then warningCount = 1
             else validateTransactions rt (before @ after) = Inr (warningCount - 1) \<and>
                  0 < warningCount))"
proof -
  let ?cfg = "fst (validateConfig (configuration eftGenerator))"
  from assms(3) obtain w1 w2 where
    v1: "snd (validateConfig (configuration eftGenerator)) = Inr w1" and
    v2: "validateTransactions rt (before @ transaction # after) = Inr w2" and
    lines: "lines = encodeLines rt ?cfg (before @ transaction # after)"
    unfolding assms(2) [symmetric] by (rule formatLines_Inr)
  note skip = validateTransactions_skip [OF assms(1) v2]
  have l: "lines = encodeLines rt ?cfg (before @ after)"
    by (simp add: lines encodeLines_skip [OF assms(1)])
  have "\<exists>w. validateTransactions rt (before @ after) = Inr w"
  proof (cases "before @ after = []")
    case True
    then show ?thesis by (simp add: validateTransactions_def)
  next
    case False
    with skip show ?thesis by auto
  qed
  then obtain w where "validateTransactions rt (before @ after) = Inr w" ..
  with v1 l have "snd (formatLines rt (eftGenerator\<lparr>transactions := before @ after\<rparr>)) = Inr lines"
    by (cases "validateConfig (configuration eftGenerator)")
       (simp add: formatLines_def validateCPA005_def getConfiguration_def getTransactions_def)
  with l v2 skip show ?thesis by blast
qed

theorem transaction_without_segments_witness:
  "snd (formatLines exampleRuntime emptyGenerator) = Inr exampleLines \<and>
   snd (formatLines exampleRuntime exampleGenerator) = Inr exampleLines \<and>
   validateTransactions exampleRuntime [exampleTransaction, emptyTransaction] = Inr 1 \<and>
   validateTransactions exampleRuntime [exampleTransaction] = Inr 0"
proof -
  let ?lines = "encodeLines exampleRuntime exampleConfigValidated
                  [exampleTransaction, emptyTransaction]"
  have v: "validateTransactions exampleRuntime [exampleTransaction, emptyTransaction] = Inr 1"
    by (simp add: validateTransactions_def validateTransaction_def exampleTransaction_def
        emptyTransaction_def validateSegment_example)
  then have f: "snd (formatLines exampleRuntime emptyGenerator) = Inr ?lines"
    by (simp add: formatLines_def validateCPA005_def getConfiguration_def getTransactions_def
        emptyGenerator_def validateConfig_example exampleConfigValidated_def)
  have s: "segments emptyTransaction = []"
    by (simp add: emptyTransaction_def)
  have t: "transactions emptyGenerator = [exampleTransaction] @ emptyTransaction # []"
    by (simp add: emptyGenerator_def)
  have c: "fst (validateConfig (configuration emptyGenerator)) = exampleConfigValidated"
    by (simp add: emptyGenerator_def validateConfig_example exampleConfigValidated_def)
  from transaction_without_segments [OF s t f]
  have "?lines = exampleLines"
    by (simp add: c exampleLines_def)
  with f v formatLines_example validateTransactions_example show ?thesis
    by simp
qed

subsection \<open>A transaction of seven segments\<close>

text \<open>
  C3: a transaction of exactly seven segments, anywhere in a transaction list that
  \<open>formatLines\<close> encodes, gives exactly two lines, at the positions that follow the lines
  of the transactions before it.  The first is the record prefix followed by the text of
  the segments at positions 0 to 5, the second, padded to 1464 characters, is the record
  prefix followed by the text of the segment at position 6 alone; the lines after them
  are those of the later transactions and the trailer.  Both lines start with the record
  type of the transaction, and as long as the file has fewer than \<open>10 ^ 9\<close> lines, so
  that a record count fits the nine digits of the field, the numbers read from the
  sequence fields of the two lines are \<open>n + 1\<close> and \<open>n + 2\<close>, where \<open>n\<close> is the number of
  lines before them.
\<close>

theorem seven_segments_two_records:
  assumes "length (segments transaction) = 7"
    and "transactions eftGenerator = before @ transaction # after"
    and "snd (formatLines rt eftGenerator) = Inr lines"
  defines "eftConfig \<equiv> fst (validateConfig (configuration eftGenerator))"
  defines "st \<equiv> encodeTransactions rt eftConfig before"
  defines "n \<equiv> recordCount st"
  defines "first \<equiv>
     recordPrefix eftConfig (recordType transaction) (n + 1) @
     recordBody rt eftConfig (n + 1) (datesTaken st) (segments transaction) 0 6"
  defines "second \<equiv>
     padEnd 1464 CHR '' ''
       (recordPrefix eftConfig (recordType transaction) (n + 2) @
        recordBody rt eftConfig (n + 2) (datesTaken st) (segments transaction) 6 7)"
  shows "take n lines = outputLines st \<and>
         lines ! n = first \<and>
         lines ! (n + 1) = second \<and>
         drop (n + 2) lines =
           detailLines rt eftConfig (n + 2) (datesTaken st + undated transaction) after @
           [formatTrailer rt eftConfig
              (encodeTransactions rt eftConfig (before @ transaction # after))] \<and>
         length (recordType transaction) = 1 \<and>
         take 1 first = recordType transaction \<and>
         take 1 second = recordType transaction \<and>
         (length lines < 10 ^ 9 \<longrightarrow> sequenceNumber first = n + 1 \<and> sequenceNumber second = n + 2)"
proof -
  let ?txs = "before @ transaction # after"
  let ?rest = "detailLines rt eftConfig (n + 2) (datesTaken st + undated transaction) after @
           [formatTrailer rt eftConfig (encodeTransactions rt eftConfig ?txs)]"
  from assms(3) obtain w1 w2 where
    v2: "validateTransactions rt ?txs = Inr w2" and
    lines: "lines = encodeLines rt eftConfig ?txs"
    unfolding assms(2) [symmetric] eftConfig_def by (rule formatLines_Inr)
  from v2 have chk: "list_all transactionChecked ?txs"
    by (rule validateTransactions_Inr)
  then have letter: "length (recordType transaction) = 1"
    by (auto simp: transactionChecked_def)
  have m: "physicalRecords transaction = 2"
    by (simp add: physicalRecords_def assms(1))
  have len: "length (outputLines st) = n"
    by (simp add: st_def n_def length_outputLines_encodeTransactions)
  have split: "lines = outputLines st @ first # second # ?rest"
    unfolding lines
    by (subst encodeLines_around)
       (simp add: st_def n_def first_def second_def detailRecords_seven [OF assms(1)] m)
  have p0: "take n lines = outputLines st"
    by (subst split) (simp add: len)
  have p1: "lines ! n = first"
    by (subst split) (simp add: len nth_append)
  have p2: "lines ! (n + 1) = second"
    by (subst split) (simp add: len nth_append)
  have p3: "drop (n + 2) lines = ?rest"
    by (subst split) (simp add: len)
  have t1: "take 1 first = recordType transaction"
    using letter by (simp add: first_def recordPrefix_def)
  have t2: "take 1 second = recordType transaction"
    using letter by (simp add: second_def recordPrefix_def padEnd_def)
  have "sequenceNumber first = n + 1 \<and> sequenceNumber second = n + 2" if "length lines < 10 ^ 9"
  proof -
    have "length lines = n + 2 + length ?rest"
      by (subst split) (simp add: len)
    then have "n + 2 < length lines" by simp
    with that have "n + 1 < 10 ^ 9" and "n + 2 < 10 ^ 9" by simp_all
    then show ?thesis
      using letter
      by (simp add: first_def second_def padEnd_def sequenceNumber_recordPrefix)
  qed
  with p0 p1 p2 p3 letter t1 t2 show ?thesis by blast
qed


theorem seven_segments_two_records_witness:
  "snd (formatLines exampleRuntime sevenGenerator) = Inr sevenLines \<and>
   length sevenLines = 4 \<and>
   take 1 (sevenLines ! 1) = ''C'' \<and> take 1 (sevenLines ! 2) = ''C'' \<and>
   sequenceNumber (sevenLines ! 1) = 2 \<and> sequenceNumber (sevenLines ! 2) = 3"
proof -
  have l: "length (segments sevenTransaction) = 7"
    by (simp add: sevenTransaction_def)
  have t: "transactions sevenGenerator = [] @ sevenTransaction # []"
    by (simp add: sevenGenerator_def)
  have n: "length sevenLines = 4"
    by (simp add: sevenLines_def encodeLines_count encodeTransactions_recordCount
        physicalRecords_def l)
  have r: "recordType sevenTransaction = ''C''"
    by (simp add: sevenTransaction_def)
  have e: "recordCount (encodeTransactions rt eftConfig []) = 1" for rt eftConfig
    by (simp add: encodeTransactions_def initialEncoder_def)
  note w = seven_segments_two_records [OF l t formatLines_seven, unfolded e r n]
  from w have "take 1 (sevenLines ! 1) = ''C''"
    by (elim conjE) (simp add: numeral_2_eq_2 numeral_3_eq_3)
  moreover from w have "take 1 (sevenLines ! 2) = ''C''"
    by (elim conjE) (simp add: numeral_2_eq_2 numeral_3_eq_3)
  moreover from w have "sequenceNumber (sevenLines ! 1) = 2"
    by (elim conjE) (simp add: numeral_2_eq_2 numeral_3_eq_3)
  moreover from w have "sequenceNumber (sevenLines ! 2) = 3"
    by (elim conjE) (simp add: numeral_2_eq_2 numeral_3_eq_3)
  ultimately show ?thesis
    using formatLines_seven n by simp
qed

subsection \<open>Cross-reference numbers\<close>

text \<open>
  C6: the validator treats a repeated cross-reference number as a warning and nothing
  else.  On every transaction list \<open>validateTransactions\<close> ends as it does on the list
  with all cross-reference numbers left out, with the same error if that one throws, and
  otherwise with as many more warnings as supplied numbers repeat an earlier one; that
  number is zero exactly when the supplied numbers are distinct.  The encoder never
  looks at the numbers of other segments.  For the segment at position \<open>j\<close> (from 0) of
  a transaction of an encoded file, the line of its physical record, numbered \<open>m\<close>, is
  the record prefix, the texts of the earlier segments of the record, the text of the
  segment itself and the texts of the later ones, padded when the record is the last of
  its transaction; below \<open>10 ^ 9\<close> lines the sequence field of that line reads \<open>m\<close>.
  The cross-reference field of the text of the segment is its supplied number, whether
  or not another segment supplies the same one, and, when it supplies none, \<open>f\<close>, the
  file creation number, \<open>r\<close>, the record number \<open>m\<close>, \<open>s\<close> and the position \<open>j + 1\<close>; either
  is padded with spaces and cut to 19 characters.
\<close>

theorem cross_reference_numbers:
  assumes "transactions eftGenerator = before @ transaction # after"
    and "snd (formatLines rt eftGenerator) = Inr lines"
    and "j < length (segments transaction)"
  defines "eftConfig \<equiv> fst (validateConfig (configuration eftGenerator))"
  defines "st \<equiv> encodeTransactions rt eftConfig before"
  defines "segs \<equiv> segments transaction"
  defines "k \<equiv> j div 6"
  defines "m \<equiv> recordCount st + k + 1"
  defines "txt \<equiv>
     segmentText rt eftConfig m j (segmentDate rt (datesTaken st) segs j) (segs ! j)"
  defines "whole \<equiv>
     recordPrefix eftConfig (recordType transaction) m @
     recordBody rt eftConfig m (datesTaken st) segs (6 * k) j @
     txt @
     recordBody rt eftConfig m (datesTaken st) segs (j + 1) (min (6 * k + 6) (length segs))"
  shows "validateTransactions rt eftTransactions =
           map_sum id (\<lambda>w. w + repeats (crossReferences eftTransactions))
             (validateTransactions rt (map withoutCrossReferences eftTransactions)) \<and>
         (repeats (crossReferences eftTransactions) = 0) =
           distinct (crossReferences eftTransactions) \<and>
         lines ! (m - 1) =
           (if k + 1 = physicalRecords transaction then padEnd 1464 CHR '' '' whole
            else whole) \<and>
         (length lines < 10 ^ 9 \<longrightarrow> sequenceNumber (lines ! (m - 1)) = m) \<and>
         crossReferenceField txt =
           sliceTo 19 (padEnd 19 CHR '' ''
             (case crossReferenceNumber (segs ! j) of
                None \<Rightarrow>
                  ''f'' @ fileCreationNumber (configuration eftGenerator) @ ''r'' @
                  natToString m @ ''s'' @ natToString (j + 1)
              | Some x \<Rightarrow> x))"
proof -
  let ?txs = "before @ transaction # after"
  from assms(2) obtain w1 w2 where
    v2: "validateTransactions rt ?txs = Inr w2" and
    lines: "lines = encodeLines rt eftConfig ?txs"
    unfolding assms(1) [symmetric] eftConfig_def by (rule formatLines_Inr)
  from v2 have chk: "list_all transactionChecked ?txs"
    by (rule validateTransactions_Inr)
  then have letter: "length (recordType transaction) = 1"
    by (auto simp: transactionChecked_def)
  have line: "lines ! (m - 1) =
      (if k + 1 = physicalRecords transaction then padEnd 1464 CHR '' '' whole else whole)"
    unfolding lines whole_def txt_def m_def k_def st_def segs_def
    by (rule encodeLines_segment [OF assms(3)])
  have number: "sequenceNumber (lines ! (m - 1)) = m" if "length lines < 10 ^ 9"
  proof -
    have "length lines = recordCount (encodeTransactions rt eftConfig ?txs) + 1"
      by (simp add: lines encodeLines_count)
    also have "recordCount (encodeTransactions rt eftConfig ?txs) =
        1 + sum_list (map physicalRecords ?txs)"
      by (rule encodeTransactions_recordCount)
    also have "recordCount st = 1 + sum_list (map physicalRecords before)"
      unfolding st_def by (rule encodeTransactions_recordCount)
    then have "1 + sum_list (map physicalRecords ?txs) =
        recordCount st + physicalRecords transaction + sum_list (map physicalRecords after)"
      by simp
    finally have "recordCount st + physicalRecords transaction < length lines" by simp
    with record_of_segment(1) [OF assms(3)] that have "m < 10 ^ 9"
      by (simp add: m_def k_def)
    then show ?thesis
      using letter unfolding line
      by (simp add: whole_def padEnd_def sequenceNumber_recordPrefix)
  qed
  have field: "crossReferenceField txt =
           sliceTo 19 (padEnd 19 CHR '' ''
             (case crossReferenceNumber (segs ! j) of
                None \<Rightarrow>
                  ''f'' @ fileCreationNumber (configuration eftGenerator) @ ''r'' @
                  natToString m @ ''s'' @ natToString (j + 1)
              | Some x \<Rightarrow> x))"
    unfolding txt_def crossReferenceField_segmentText eftConfig_def validateConfig_keeps
    by (rule refl)
  from validateTransactions_references [of rt eftTransactions]
    repeats_distinct [of "crossReferences eftTransactions"] line number field
  show ?thesis by blast
qed

theorem cross_reference_numbers_witness:
  "snd (formatLines exampleRuntime referenceGenerator) = Inr referenceLines \<and>
   validateTransactions exampleRuntime (transactions referenceGenerator) = Inr 1 \<and>
   take 19 (drop 414 (referenceLines ! 1)) = ''INV-1              '' \<and>
   take 19 (drop 654 (referenceLines ! 1)) = ''f0001r2s3          ''"
proof -
  let ?cfg = "fst (validateConfig (configuration referenceGenerator))"
  let ?segs = "segments referenceTransaction"
  have t: "transactions referenceGenerator = [] @ referenceTransaction # []"
    by (simp add: referenceGenerator_def)
  have j1: "1 < length ?segs" and j2: "2 < length ?segs"
    by (simp_all add: referenceTransaction_def)
  have cfg: "?cfg = exampleConfigValidated"
    by (simp add: referenceGenerator_def validateConfig_example exampleConfigValidated_def)
  have e: "recordCount (encodeTransactions rt exampleConfigValidated []) = 1"
    "datesTaken (encodeTransactions rt exampleConfigValidated []) = 0" for rt
    by (simp_all add: encodeTransactions_def initialEncoder_def exampleConfigValidated_def
        exampleConfig_def)
  have p: "physicalRecords referenceTransaction = 1"
    by (simp add: physicalRecords_def referenceTransaction_def)
  have s: "?segs ! 0 = referenceSegment" "?segs ! 1 = referenceSegment"
    "?segs ! Suc 0 = referenceSegment" "?segs ! 2 = exampleSegment"
    by (simp_all add: referenceTransaction_def)
  have u: "[0..<2] = [0, 1]" by (simp add: upt_conv_Cons)
  have len: "length ?segs = 3" by (simp add: referenceTransaction_def)
  have fcn: "fileCreationNumber (configuration referenceGenerator) = ''0001''"
    by (simp add: referenceGenerator_def exampleConfig_def)
  have x: "crossReferenceNumber referenceSegment = Some ''INV-1''"
    "crossReferenceNumber exampleSegment = None"
    by (simp_all add: referenceSegment_def exampleSegment_def)
  have pre: "length (recordPrefix exampleConfigValidated (recordType referenceTransaction) 2) = 24"
    using length_recordPrefix_example [of 2] by (simp add: referenceTransaction_def)
  have b1: "length (recordBody exampleRuntime exampleConfigValidated 2 0 ?segs 0 1) = 240"
    "length (recordBody exampleRuntime exampleConfigValidated 2 0 ?segs 0 (Suc 0)) = 240"
    by (simp_all add: recordBody_def s length_segmentText_reference)
  have b2: "length (recordBody exampleRuntime exampleConfigValidated 2 0 ?segs 0 2) = 480"
    by (simp add: recordBody_def u s length_segmentText_reference)
  note w1 = cross_reference_numbers [OF t formatLines_reference j1,
      where eftTransactions = "transactions referenceGenerator"]
  note w2 = cross_reference_numbers [OF t formatLines_reference j2,
      where eftTransactions = "transactions referenceGenerator"]
  note v0 = w1 [THEN conjunct1]
  note ln1 = w1 [THEN conjunct2, THEN conjunct2, THEN conjunct1]
  note fd1 = w1 [THEN conjunct2, THEN conjunct2, THEN conjunct2, THEN conjunct2]
  have v: "validateTransactions exampleRuntime (transactions referenceGenerator) = Inr 1"
    using v0
    by (simp add: referenceGenerator_def validateTransactions_reference_without
          repeats_reference)
  have l1: "referenceLines ! 1 =
      padEnd 1464 CHR '' ''
        (recordPrefix exampleConfigValidated (recordType referenceTransaction) 2 @
         recordBody exampleRuntime exampleConfigValidated 2 0 ?segs 0 1 @
         segmentText exampleRuntime exampleConfigValidated 2 1
           (segmentDate exampleRuntime 0 ?segs 1) referenceSegment @
         recordBody exampleRuntime exampleConfigValidated 2 0 ?segs 2 3)"
    using ln1 unfolding cfg e p s
    by (simp add: len numeral_2_eq_2 numeral_3_eq_3)
  have f1: "crossReferenceField
         (segmentText exampleRuntime exampleConfigValidated 2 1
           (segmentDate exampleRuntime 0 ?segs 1) referenceSegment) =
       ''INV-1              ''"
    using fd1 unfolding cfg e s
    by (simp add: x padEnd_def sliceTo_def replicate_numeral numeral_2_eq_2)
  have r1: "take 19 (drop 414 (referenceLines ! 1)) = ''INV-1              ''"
    unfolding l1 f1 [symmetric]
    by (rule field_in_line) (simp_all add: pre b1 length_segmentText_reference)
  note ln2 = w2 [THEN conjunct2, THEN conjunct2, THEN conjunct1]
  note fd2 = w2 [THEN conjunct2, THEN conjunct2, THEN conjunct2, THEN conjunct2]
  have l2: "referenceLines ! 1 =
      padEnd 1464 CHR '' ''
        (recordPrefix exampleConfigValidated (recordType referenceTransaction) 2 @
         recordBody exampleRuntime exampleConfigValidated 2 0 ?segs 0 2 @
         segmentText exampleRuntime exampleConfigValidated 2 2
           (segmentDate exampleRuntime 0 ?segs 2) exampleSegment @
         recordBody exampleRuntime exampleConfigValidated 2 0 ?segs 3 3)"
    using ln2 unfolding cfg e p s
    by (simp add: len numeral_2_eq_2 numeral_3_eq_3)
  have f2: "crossReferenceField
         (segmentText exampleRuntime exampleConfigValidated 2 2
           (segmentDate exampleRuntime 0 ?segs 2) exampleSegment) =
       ''f0001r2s3          ''"
    using fd2 unfolding cfg e s
    by (simp add: x fcn natToString_eval padEnd_def sliceTo_def replicate_numeral
        numeral_2_eq_2)
  have r2: "take 19 (drop 654 (referenceLines ! 1)) = ''f0001r2s3          ''"
    unfolding l2 f2 [symmetric]
    by (rule field_in_line) (simp_all add: pre b2 length_segmentText_reference)
  from formatLines_reference v r1 r2 show ?thesis by simp
qed

subsection \<open>Dates and the clock\<close>

text \<open>
  C10: when the configuration has a file creation date and every segment of every
  transaction has a payment date, \<open>formatToCPA005\<close> returns the same generator and the
  same outcome, error or text, under every clock, and so does a second call on the
  generator the first call returned, whose configuration validation may have changed.
  In every file that is encoded, the six characters (as many as the Julian date has)
  after the first 24 of the header are the Julian date of the file creation date, or,
  when there is none, of the first reading of the clock.  For the segment at position
  \<open>j\<close> of a transaction, the line of its physical record is the record prefix, the texts
  of the earlier segments of the record, the text of the segment and the texts of the
  later ones, and in the text of the segment the characters after the CPA code and
  the amount field are the Julian date of the payment date, or, when there is none, of
  the reading of the clock numbered by the dates that were left out before it: the file
  creation date, and the payment dates of the earlier segments of the file.
\<close>

theorem dates_and_the_clock:
  fixes rt :: runtime and clock :: "nat \<Rightarrow> Date" and eftGenerator :: EFTGenerator
    and before after :: "EFTTransaction list" and transaction :: EFTTransaction
    and j :: nat and lines :: "string list"
  defines "eftConfig \<equiv> fst (validateConfig (configuration eftGenerator))"
  defines "headerDate \<equiv>
     (case fileCreationDate (configuration eftGenerator) of
        None \<Rightarrow> newDate rt 0
      | Some d \<Rightarrow> d)"
  defines "segs \<equiv> segments transaction"
  defines "taken \<equiv>
     (case fileCreationDate (configuration eftGenerator) of None \<Rightarrow> 1 | Some d \<Rightarrow> 0) +
     sum_list (map undated before)"
  defines "date \<equiv>
     (case paymentDate (segs ! j) of
        None \<Rightarrow> newDate rt (taken + undatedBefore segs j)
      | Some d \<Rightarrow> d)"
  defines "m \<equiv> recordCount (encodeTransactions rt eftConfig before) + j div 6 + 1"
  defines "txt \<equiv> segmentText rt eftConfig m j date (segs ! j)"
  defines "whole \<equiv>
     recordPrefix eftConfig (recordType transaction) m @
     recordBody rt eftConfig m taken segs (6 * (j div 6)) j @
     txt @
     recordBody rt eftConfig m taken segs (j + 1) (min (6 * (j div 6) + 6) (length segs))"
  shows "(fileCreationDate (configuration eftGenerator) \<noteq> None \<and>
          (\<forall>t\<in>set (transactions eftGenerator). \<forall>s\<in>set (segments t). paymentDate s \<noteq> None) \<longrightarrow>
            formatToCPA005 (rt\<lparr>newDate := clock\<rparr>) eftGenerator =
              formatToCPA005 rt eftGenerator \<and>
            snd (formatToCPA005 (rt\<lparr>newDate := clock\<rparr>) (fst (formatToCPA005 rt eftGenerator))) =
              snd (formatToCPA005 rt eftGenerator)) \<and>
         (snd (formatLines rt eftGenerator) = Inr lines \<longrightarrow>
            take (length (toJulianDate rt headerDate)) (drop 24 (lines ! 0)) =
              toJulianDate rt headerDate \<and>
            (transactions eftGenerator = before @ transaction # after \<and> j < length segs \<longrightarrow>
               lines ! (m - 1) =
                 (if j div 6 + 1 = physicalRecords transaction
                  then padEnd 1464 CHR '' '' whole else whole) \<and>
               take (length (toJulianDate rt date))
                 (drop (length (toString rt (cpaCode (segs ! j))) +
                        length (padStart 10 CHR ''0'' (centsText rt (amount (segs ! j)))))
                    txt) =
                 toJulianDate rt date))"
proof (intro conjI impI)
  assume a: "fileCreationDate (configuration eftGenerator) \<noteq> None \<and>
          (\<forall>t\<in>set (transactions eftGenerator). \<forall>s\<in>set (segments t). paymentDate s \<noteq> None)"
  then have a1: "fileCreationDate (configuration eftGenerator) \<noteq> None"
    and a2: "\<forall>t\<in>set (transactions eftGenerator). \<forall>s\<in>set (segments t). paymentDate s \<noteq> None"
    by simp_all
  show "formatToCPA005 (rt\<lparr>newDate := clock\<rparr>) eftGenerator = formatToCPA005 rt eftGenerator"
    using a1 a2 by (rule clock_formatToCPA005)
  let ?g = "fst (formatToCPA005 rt eftGenerator)"
  have "fileCreationDate (configuration ?g) \<noteq> None"
    using a1 by (simp add: fst_formatToCPA005 validateConfig_keeps)
  moreover have "\<forall>t\<in>set (transactions ?g). \<forall>s\<in>set (segments t). paymentDate s \<noteq> None"
    using a2 by (simp add: fst_formatToCPA005)
  ultimately have "formatToCPA005 (rt\<lparr>newDate := clock\<rparr>) ?g = formatToCPA005 rt ?g"
    by (rule clock_formatToCPA005)
  then show "snd (formatToCPA005 (rt\<lparr>newDate := clock\<rparr>) ?g) =
      snd (formatToCPA005 rt eftGenerator)"
    by (simp add: formatToCPA005_again)
next
  assume f: "snd (formatLines rt eftGenerator) = Inr lines"
  then obtain w1 w2 where
    v1: "snd (validateConfig (configuration eftGenerator)) = Inr w1" and
    lines: "lines = encodeLines rt eftConfig (transactions eftGenerator)"
    unfolding eftConfig_def by (rule formatLines_Inr)
  from validateConfig_Inr [OF v1] have "length (originatorId eftConfig) \<le> 10"
    by (simp add: configChecked_def eftConfig_def validateConfig_keeps)
  from header_date_field [OF this, of rt]
  show "take (length (toJulianDate rt headerDate)) (drop 24 (lines ! 0)) =
      toJulianDate rt headerDate"
    by (simp add: lines hd_encodeLines headerDate_def eftConfig_def validateConfig_keeps)
next
  assume f: "snd (formatLines rt eftGenerator) = Inr lines"
    and t: "transactions eftGenerator = before @ transaction # after \<and> j < length segs"
  from f obtain w1 w2 where
    lines: "lines = encodeLines rt eftConfig (transactions eftGenerator)"
    unfolding eftConfig_def by (rule formatLines_Inr)
  from t have j: "j < length (segments transaction)" by (simp add: segs_def)
  have taken: "datesTaken (encodeTransactions rt eftConfig before) = taken"
    by (simp add: datesTaken_encodeTransactions taken_def eftConfig_def validateConfig_keeps)
  have date: "segmentDate rt taken segs j = date"
    by (simp add: segmentDate_def date_def)
  from encodeLines_segment [OF j, of rt eftConfig before after]
  show "lines ! (m - 1) =
      (if j div 6 + 1 = physicalRecords transaction
       then padEnd 1464 CHR '' '' whole else whole)"
    using t
    by (simp add: lines taken date m_def whole_def txt_def segs_def [symmetric])
next
  show "take (length (toJulianDate rt date))
         (drop (length (toString rt (cpaCode (segs ! j))) +
                length (padStart 10 CHR ''0'' (centsText rt (amount (segs ! j)))))
            txt) =
       toJulianDate rt date"
    unfolding txt_def by (rule segment_date_field)
qed

theorem dates_and_the_clock_witness:
  "formatToCPA005 (exampleRuntime\<lparr>newDate := (\<lambda>k. 0)\<rparr>) exampleGenerator =
     formatToCPA005 exampleRuntime exampleGenerator \<and>
   snd (formatLines tickingRuntime undatedGenerator) = Inr undatedLines \<and>
   take 6 (drop 24 (undatedLines ! 0)) = ''070001'' \<and>
   take 6 (drop 277 (undatedLines ! 1)) = ''024061''"
proof -
  let ?segs = "segments undatedTransaction"
  let ?cfg = "undatedConfig\<lparr>originatorShortName := Some ''Test Co''\<rparr>"
  have d: "fileCreationDate (configuration exampleGenerator) \<noteq> None \<and>
      (\<forall>t\<in>set (transactions exampleGenerator). \<forall>s\<in>set (segments t). paymentDate s \<noteq> None)"
    by (simp add: exampleGenerator_def exampleConfig_def exampleTransaction_def
        exampleSegment_def)
  note w1 = dates_and_the_clock [where rt = exampleRuntime and clock = "\<lambda>k. 0"
      and eftGenerator = exampleGenerator, THEN conjunct1, THEN mp, OF d, THEN conjunct1]
  note w2 = dates_and_the_clock [where rt = tickingRuntime and eftGenerator = undatedGenerator
      and lines = undatedLines and before = "[]" and transaction = undatedTransaction
      and after = "[]" and j = 1, THEN conjunct2, THEN mp, OF formatLines_undated]
  have t: "transactions undatedGenerator = [] @ undatedTransaction # [] \<and> 1 < length ?segs"
    by (simp add: undatedGenerator_def undatedTransaction_def)
  have jl: "length (toJulianDate tickingRuntime d) = 6" for d
    by (simp add: toJulianDate_def tickingRuntime_def exampleRuntime_def)
  note hd = w2 [THEN conjunct1, unfolded jl]
  note sg = w2 [THEN conjunct2, THEN mp, OF t, unfolded jl]
  have cfg: "fst (validateConfig (configuration undatedGenerator)) = ?cfg"
    by (simp add: undatedGenerator_def validateConfig_undated)
  have none: "fileCreationDate (configuration undatedGenerator) = None"
    by (simp add: undatedGenerator_def undatedConfig_def)
  have julian: "toJulianDate tickingRuntime 0 = ''070001''"
    "toJulianDate tickingRuntime 1 = ''024061''"
    by (simp_all add: toJulianDate_def tickingRuntime_def exampleRuntime_def)
  have tick: "newDate tickingRuntime k = int k" for k
    by (simp add: tickingRuntime_def)
  have r0: "take 6 (drop 24 (undatedLines ! 0)) = ''070001''"
    using hd by (simp add: none julian tick)
  have s: "?segs ! 0 = exampleSegment" "?segs ! 1 = undatedSegment"
    "?segs ! Suc 0 = undatedSegment"
    by (simp_all add: undatedTransaction_def)
  have len: "length ?segs = 2" by (simp add: undatedTransaction_def)
  have p: "physicalRecords undatedTransaction = 1"
    by (simp add: physicalRecords_def undatedTransaction_def)
  have e: "recordCount (encodeTransactions rt eftConfig []) = 1" for rt eftConfig
    by (simp add: encodeTransactions_def initialEncoder_def)
  have u: "undatedBefore ?segs 1 = 0" "undatedBefore ?segs (Suc 0) = 0"
    by (simp_all add: undatedBefore_def undatedTransaction_def exampleSegment_def)
  have pd: "paymentDate undatedSegment = None"
    by (simp add: undatedSegment_def)
  have code: "length (toString tickingRuntime (cpaCode undatedSegment)) = 3"
    by (simp add: undatedSegment_def exampleSegment_def toString_450)
  have cents: "length (padStart 10 CHR ''0'' (centsText tickingRuntime (amount undatedSegment))) = 10"
    by (simp add: undatedSegment_def exampleSegment_def centsText_example length_padStart)
  have pre: "length (recordPrefix ?cfg (recordType undatedTransaction) 2) = 24"
    by (rule length_recordPrefix)
       (simp_all add: undatedTransaction_def undatedConfig_def exampleConfig_def)
  have b: "length (recordBody tickingRuntime ?cfg n taken ?segs 0 1) = 240"
    "length (recordBody tickingRuntime ?cfg n taken ?segs 0 (Suc 0)) = 240" for n taken
    by (simp_all add: recordBody_def s length_segmentText_undated)
  let ?txt = "segmentText tickingRuntime ?cfg 2 1 1 undatedSegment"
  from sg have l1: "undatedLines ! 1 =
      padEnd 1464 CHR '' ''
        (recordPrefix ?cfg (recordType undatedTransaction) 2 @
         recordBody tickingRuntime ?cfg 2 1 ?segs 0 1 @ ?txt @
         recordBody tickingRuntime ?cfg 2 1 ?segs 2 2)"
    and f1: "take 6 (drop 13 ?txt) = ''024061''"
    unfolding cfg e p s none
    by (simp_all add: len u pd tick julian code cents numeral_2_eq_2)
  have r1: "take 6 (drop 277 (undatedLines ! 1)) = ''024061''"
    unfolding l1 f1 [symmetric]
    by (rule part_of_line) (simp_all add: pre b length_segmentText_undated)
  from w1 formatLines_undated r0 r1 show ?thesis by simp
qed

end
